theory Spec2Isabelle
  imports Complex_Main
begin

section \<open>Numbers and numpy helpers\<close>

text \<open>
  The pitch pipeline of \<^verbatim>\<open>main.py\<close> (10 marks) and \<^verbatim>\<open>main2.py\<close> (20 marks with
  pre-scan gap filling and a reset boundary). Python floats are modelled as real
  numbers: every finite double is one, and the model computes sums, means and decimal
  rounding exactly, without binary rounding error. Sample indices and lengths are
  natural numbers, as \<^verbatim>\<open>len\<close> and \<^verbatim>\<open>range\<close> produce them.
\<close>

definition MAX_VALID_HZ :: real where
  "MAX_VALID_HZ = 350"

definition MIN_VALID_HZ :: real where
  "MIN_VALID_HZ = 75"

definition SUB_WINDOWS :: nat where
  "SUB_WINDOWS = 5"

definition PRE_SCAN_MARKS :: nat where
  "PRE_SCAN_MARKS = 300"

text \<open>\<^verbatim>\<open>TIME_MARKS\<close> is 10 in \<^verbatim>\<open>main.py\<close> and 20 in \<^verbatim>\<open>main2.py\<close>.\<close>

definition TIME_MARKS :: nat where
  "TIME_MARKS = 10"

definition TIME_MARKS2 :: nat where
  "TIME_MARKS2 = 20"

text \<open>
  Python's \<^verbatim>\<open>round(x, nd)\<close> on a float: the nearest multiple of \<open>10^-nd\<close> of the exact
  value, a tie going to the even multiple.
\<close>

definition round_half_even :: "real \<Rightarrow> int" where
  "round_half_even x =
     (let f = \<lfloor>x\<rfloor>; d = x - of_int f
      in if d < 1 / 2 then f
         else if 1 / 2 < d then f + 1
         else if even f then f else f + 1)"

definition py_round :: "real \<Rightarrow> nat \<Rightarrow> real" where
  "py_round x nd = of_int (round_half_even (x * 10 ^ nd)) / 10 ^ nd"

text \<open>
  A slice \<^verbatim>\<open>xs[a:b]\<close> with non-negative bounds: out-of-range bounds are clipped, and
  \<^verbatim>\<open>b < a\<close> gives the empty list.
\<close>

definition py_slice :: "'a list \<Rightarrow> nat \<Rightarrow> nat \<Rightarrow> 'a list" where
  "py_slice xs a b = take (b - a) (drop a xs)"

text \<open>
  The slice \<^verbatim>\<open>xs[-2:]\<close>: the last two elements, or the whole list when it is
  shorter than two.
\<close>

definition py_last2 :: "'a list \<Rightarrow> 'a list" where
  "py_last2 xs = drop (length xs - 2) xs"

text \<open>
  \<^verbatim>\<open>np.mean\<close> and \<^verbatim>\<open>np.median\<close>. On an empty array numpy yields NaN; the callers
  below only pass non-empty lists (lemma \<open>smooth_slices_nonempty\<close> and the length
  guards of \<open>detect_pitch\<close> and \<open>robust_pitch_detection\<close>), so the value at \<open>[]\<close>
  is never used.
\<close>

definition np_mean :: "real list \<Rightarrow> real" where
  "np_mean xs = sum_list xs / of_nat (length xs)"

definition np_median :: "real list \<Rightarrow> real" where
  "np_median xs =
     (let s = sort xs; n = length s
      in if odd n then s ! (n div 2)
         else (s ! (n div 2 - 1) + s ! (n div 2)) / 2)"

section \<open>Smoothing\<close>

text \<open>
  \<^verbatim>\<open>smooth_hz_values\<close>: one pass over \<^verbatim>\<open>range(len(hz_list))\<close>; the branch for
  \<^verbatim>\<open>i == 0\<close> is tested before the one for \<^verbatim>\<open>i == len(hz_list) - 1\<close>.
\<close>

definition smooth_value :: "real list \<Rightarrow> nat \<Rightarrow> real" where
  "smooth_value hz_list i =
     (if i = 0 then np_mean (py_slice hz_list 0 2)
      else if int i = int (length hz_list) - 1 then np_mean (py_last2 hz_list)
      else np_mean (py_slice hz_list (i - 1) (i + 2)))"

definition smooth_hz_values :: "real list \<Rightarrow> real list" where
  "smooth_hz_values hz_list =
     foldl (\<lambda>smoothed i. smoothed @ [py_round (smooth_value hz_list i) 2])
       [] [0..<length hz_list]"

section \<open>Segmentation\<close>

text \<open>
  The tiling used by every loop over \<^verbatim>\<open>range(N)\<close>: span \<open>i\<close> starts at
  \<open>i * (total_len // N)\<close> and ends at \<open>(i + 1) * (total_len // N)\<close>, except the last
  one, which ends at \<open>total_len\<close>.
\<close>

definition span_of :: "nat \<Rightarrow> nat \<Rightarrow> nat \<Rightarrow> nat \<times> nat" where
  "span_of total_len n i =
     (let segment_len = total_len div n;
          start = i * segment_len;
          end = (if int i < int n - 1 then (i + 1) * segment_len else total_len)
      in (start, end))"

definition segment_bounds :: "nat \<Rightarrow> nat \<Rightarrow> (nat \<times> nat) list" where
  "segment_bounds total_len n =
     foldl (\<lambda>segment_boundaries i. segment_boundaries @ [span_of total_len n i])
       [] [0..<n]"

section \<open>Pitch detection\<close>

text \<open>
  \<^verbatim>\<open>librosa.yin(segment, fmin=50, fmax=500, sr=sr)\<close> is external: it is a parameter of
  the model. It either raises or returns the frame-wise track, where \<open>None\<close> is a NaN
  frame. The sample rate is the positive integer \<^verbatim>\<open>librosa.load\<close> returns; the model
  takes any natural number and makes the division by a zero rate an error.
\<close>

datatype exn = Exception

type_synonym yin = "real list \<Rightarrow> nat \<Rightarrow> exn + real option list"

datatype py_error = ZeroDivisionError | TypeError | IndexError

text \<open>
  \<^verbatim>\<open>detect_pitch\<close>: the \<^verbatim>\<open>try\<close> block turns every exception into \<^verbatim>\<open>None\<close>; NaN
  frames are dropped, no frame left gives \<^verbatim>\<open>None\<close>, otherwise the median.
\<close>

definition detect_pitch :: "yin \<Rightarrow> real list \<Rightarrow> nat \<Rightarrow> real option" where
  "detect_pitch yin segment sr =
     (case yin segment sr of
        Inl e \<Rightarrow> None
      | Inr f0 \<Rightarrow>
          (let f0' = List.map_filter (\<lambda>f. f) f0
           in if length f0' = 0 then None else Some (np_median f0')))"

text \<open>One round of the loop over \<^verbatim>\<open>range(SUB_WINDOWS)\<close> of \<^verbatim>\<open>robust_pitch_detection\<close>.\<close>

definition sub_window_step :: "yin \<Rightarrow> real list \<Rightarrow> nat \<Rightarrow> real list \<Rightarrow> nat \<Rightarrow> real list" where
  "sub_window_step yin segment sr valid_hz_values i =
     (let (start, end) = span_of (length segment) SUB_WINDOWS i;
          sub_segment = py_slice segment start end
      in case detect_pitch yin sub_segment sr of
           None \<Rightarrow> valid_hz_values
         | Some sub_hz \<Rightarrow>
             if sub_hz < MAX_VALID_HZ then valid_hz_values @ [sub_hz] else valid_hz_values)"

text \<open>
  \<^verbatim>\<open>robust_pitch_detection\<close> returns the whole-segment median at once when it is
  concrete and below the ceiling; \<open>sub_window_fallback\<close> is the rest of its body, reached
  by falling through that \<^verbatim>\<open>if\<close>.
\<close>

definition sub_window_fallback :: "yin \<Rightarrow> real list \<Rightarrow> nat \<Rightarrow> real" where
  "sub_window_fallback yin segment sr =
     (let valid_hz_values = foldl (sub_window_step yin segment sr) [] [0..<SUB_WINDOWS]
      in if 0 < length valid_hz_values then np_median valid_hz_values else MAX_VALID_HZ)"

definition robust_pitch_detection :: "yin \<Rightarrow> real list \<Rightarrow> nat \<Rightarrow> real" where
  "robust_pitch_detection yin segment sr =
     (case detect_pitch yin segment sr of
        None \<Rightarrow> sub_window_fallback yin segment sr
      | Some hz \<Rightarrow>
          if hz < MAX_VALID_HZ then hz else sub_window_fallback yin segment sr)"

section \<open>The coarse marks\<close>

text \<open>
  The first loop of \<^verbatim>\<open>process_audio_file\<close> (both files): one robust estimate and one
  pair of boundaries per mark, appended in mark order.
\<close>

definition estimate_marks :: "yin \<Rightarrow> real list \<Rightarrow> nat \<Rightarrow> nat \<Rightarrow> real list \<times> (nat \<times> nat) list" where
  "estimate_marks yin y sr n =
     foldl (\<lambda>(hz_values, segment_boundaries) i.
              (let (start, end) = span_of (length y) n i;
                   segment = py_slice y start end;
                   hz = robust_pitch_detection yin segment sr
               in (hz_values @ [hz], segment_boundaries @ [(start, end)])))
       ([], []) [0..<n]"

record mark_result =
  sounding :: string
  time_mark :: nat
  relative_time_sec :: real
  hz :: real

section \<open>The pipeline of main.py\<close>

text \<open>
  The second loop of \<^verbatim>\<open>main.py\<close>. Indexing a list out of range raises
  \<^verbatim>\<open>IndexError\<close> and dividing by a zero sample rate raises \<^verbatim>\<open>ZeroDivisionError\<close>.
\<close>

fun emit_marks :: "string \<Rightarrow> nat \<Rightarrow> real list \<Rightarrow> (nat \<times> nat) list \<Rightarrow> nat list \<Rightarrow>
    mark_result list \<Rightarrow> py_error + mark_result list" where
  "emit_marks file_name sr hz_values segment_boundaries [] results = Inr results"
| "emit_marks file_name sr hz_values segment_boundaries (i # rest) results =
     (if length segment_boundaries \<le> i then Inl IndexError
      else
        (let (start_sample, end_sample) = segment_boundaries ! i
         in if sr = 0 then Inl ZeroDivisionError
            else
              (let midpoint_time = ((of_nat (start_sample + end_sample) :: real) / 2) / of_nat sr
               in if length hz_values \<le> i then Inl IndexError
                  else emit_marks file_name sr hz_values segment_boundaries rest
                         (results @ [\<lparr>sounding = file_name, time_mark = i + 1,
                                       relative_time_sec = py_round midpoint_time 3,
                                       hz = hz_values ! i\<rparr>]))))"

text \<open>
  \<^verbatim>\<open>process_audio_file\<close> of \<^verbatim>\<open>main.py\<close>, from the trimmed waveform \<open>y\<close> and its
  sample rate on; \<open>file_name\<close> is the base name of the path.
\<close>

definition process_audio_file :: "yin \<Rightarrow> string \<Rightarrow> real list \<Rightarrow> nat \<Rightarrow> py_error + mark_result list" where
  "process_audio_file yin file_name y sr =
     (let (hz_values, segment_boundaries) = estimate_marks yin y sr TIME_MARKS;
          hz_values = smooth_hz_values hz_values
      in emit_marks file_name sr hz_values segment_boundaries [0..<TIME_MARKS] [])"

section \<open>The pipeline of main2.py\<close>

text \<open>A point of the pre-scan: the dictionary \<^verbatim>\<open>{"time": ..., "hz": ...}\<close>.\<close>

record prescan_point =
  p_time :: real
  p_hz :: "real option"

fun prescan_loop :: "yin \<Rightarrow> real list \<Rightarrow> nat \<Rightarrow> nat list \<Rightarrow> prescan_point list \<Rightarrow>
    py_error + prescan_point list" where
  "prescan_loop yin y sr [] prescan_data = Inr prescan_data"
| "prescan_loop yin y sr (i # rest) prescan_data =
     (let (start, end) = span_of (length y) PRE_SCAN_MARKS i;
          segment = py_slice y start end;
          hz = detect_pitch yin segment sr
      in if sr = 0 then Inl ZeroDivisionError
         else
           (let midpoint_time = ((of_nat (start + end) :: real) / 2) / of_nat sr
            in prescan_loop yin y sr rest
                 (prescan_data @ [\<lparr>p_time = midpoint_time, p_hz = hz\<rparr>])))"

definition prescan_300_marks :: "yin \<Rightarrow> real list \<Rightarrow> nat \<Rightarrow> py_error + prescan_point list" where
  "prescan_300_marks yin y sr = prescan_loop yin y sr [0..<PRE_SCAN_MARKS] []"

text \<open>
  Python's \<^verbatim>\<open>min(items, key=...)\<close> on a non-empty list: the running best is replaced
  only by an item whose key is strictly smaller.
\<close>

definition py_min_key :: "('a \<Rightarrow> real) \<Rightarrow> 'a \<Rightarrow> 'a list \<Rightarrow> 'a" where
  "py_min_key key x xs = foldl (\<lambda>best p. if key p < key best then p else best) x xs"

definition valid_point :: "prescan_point \<Rightarrow> bool" where
  "valid_point p = (case p_hz p of None \<Rightarrow> False | Some h \<Rightarrow> MIN_VALID_HZ \<le> h)"

text \<open>
  \<^verbatim>\<open>find_nearest_valid_hz\<close> returns \<^verbatim>\<open>nearest["hz"]\<close> as it is stored, so the result
  type is that of the field.
\<close>

definition find_nearest_valid_hz :: "real \<Rightarrow> prescan_point list \<Rightarrow> real option" where
  "find_nearest_valid_hz target_time prescan_data =
     (let valid_points = filter valid_point prescan_data
      in case valid_points of
           [] \<Rightarrow> Some MIN_VALID_HZ
         | p # ps \<Rightarrow> p_hz (py_min_key (\<lambda>p. \<bar>p_time p - target_time\<bar>) p ps))"

text \<open>The variables the second loop of \<^verbatim>\<open>main2.py\<close> carries from mark to mark.\<close>

record loop_state =
  hz_values :: "real list"
  results :: "mark_result list"
  reset_time :: real
  prev_end_time :: real

text \<open>
  One round of that loop. \<^verbatim>\<open>round(None, 2)\<close> raises \<^verbatim>\<open>TypeError\<close>; the
  replacement is written into \<^verbatim>\<open>hz_values[i]\<close> in place.
\<close>

definition mark_step :: "string \<Rightarrow> nat \<Rightarrow> prescan_point list \<Rightarrow> (nat \<times> nat) list \<Rightarrow>
    nat \<Rightarrow> loop_state \<Rightarrow> py_error + loop_state" where
  "mark_step file_name sr prescan_data segment_boundaries i st =
     (if length segment_boundaries \<le> i then Inl IndexError
      else
        (let (start, end) = segment_boundaries ! i
         in if sr = 0 then Inl ZeroDivisionError
            else
              (let start_time = (of_nat start :: real) / of_nat sr;
                   end_time = (of_nat end :: real) / of_nat sr;
                   midpoint_time = (start_time + end_time) / 2
               in if length (hz_values st) \<le> i then Inl IndexError
                  else
                    (case (if hz_values st ! i < MIN_VALID_HZ
                           then (case find_nearest_valid_hz midpoint_time prescan_data of
                                   None \<Rightarrow> Inl TypeError
                                 | Some replacement_hz \<Rightarrow>
                                     Inr ((hz_values st)[i := py_round replacement_hz 2]))
                           else Inr (hz_values st)) of
                       Inl e \<Rightarrow> Inl e
                     | Inr hzs \<Rightarrow>
                         (let reset = (if i = 10 then prev_end_time st else reset_time st);
                              (relative_time, excel_mark) =
                                (if i < 10 then (midpoint_time, i + 1)
                                 else (midpoint_time - reset, (i - 10) + 1))
                          in Inr \<lparr>hz_values = hzs,
                                   results = results st @
                                     [\<lparr>sounding = file_name, time_mark = excel_mark,
                                       relative_time_sec = py_round relative_time 3,
                                       hz = hzs ! i\<rparr>],
                                   reset_time = reset,
                                   prev_end_time = end_time\<rparr>)))))"

fun mark_loop :: "string \<Rightarrow> nat \<Rightarrow> prescan_point list \<Rightarrow> (nat \<times> nat) list \<Rightarrow>
    nat list \<Rightarrow> loop_state \<Rightarrow> py_error + loop_state" where
  "mark_loop file_name sr prescan_data segment_boundaries [] st = Inr st"
| "mark_loop file_name sr prescan_data segment_boundaries (i # rest) st =
     (case mark_step file_name sr prescan_data segment_boundaries i st of
        Inl e \<Rightarrow> Inl e
      | Inr st' \<Rightarrow> mark_loop file_name sr prescan_data segment_boundaries rest st')"

text \<open>\<^verbatim>\<open>process_audio_file\<close> of \<^verbatim>\<open>main2.py\<close>, from the trimmed waveform on.\<close>

definition process_audio_file2 :: "yin \<Rightarrow> string \<Rightarrow> real list \<Rightarrow> nat \<Rightarrow> py_error + mark_result list" where
  "process_audio_file2 yin file_name y sr =
     (case prescan_300_marks yin y sr of
        Inl e \<Rightarrow> Inl e
      | Inr prescan_data \<Rightarrow>
          (let (hz_values0, segment_boundaries) = estimate_marks yin y sr TIME_MARKS2;
               smoothed = smooth_hz_values hz_values0
           in case mark_loop file_name sr prescan_data segment_boundaries [0..<TIME_MARKS2]
                     \<lparr>hz_values = smoothed, results = [], reset_time = 0, prev_end_time = 0\<rparr> of
                Inl e \<Rightarrow> Inl e
              | Inr st \<Rightarrow> Inr (results st)))"

section \<open>Notions used to state the properties\<close>

text \<open>
  The definitions of this section are not code of the repository. They name what the
  code above computes, in closed form, so that the theorems can say it; each one is tied
  to the loop it describes by a lemma (\<open>sub_window_loop_eq\<close>, \<open>estimate_marks_eq\<close>,
  \<open>prescan_300_marks_eq\<close>, \<open>mark_loop_state_after\<close>, \<open>process_audio_file2_eq\<close>).
\<close>

text \<open>A primitive result is kept when it is concrete and strictly below the ceiling.\<close>

definition accept_below_max :: "real option \<Rightarrow> real option" where
  "accept_below_max r =
     (case r of None \<Rightarrow> None | Some h \<Rightarrow> if h < MAX_VALID_HZ then Some h else None)"

text \<open>
  The sub-window fallback as the specification words it: the segment is tiled into
  \<open>SUB_WINDOWS\<close> spans by the segmenter, and the accepted medians are collected in order.
\<close>

definition valid_sub_window_medians :: "yin \<Rightarrow> real list \<Rightarrow> nat \<Rightarrow> real list" where
  "valid_sub_window_medians yin segment sr =
     List.map_filter
       (\<lambda>(start, end). accept_below_max (detect_pitch yin (py_slice segment start end) sr))
       (segment_bounds (length segment) SUB_WINDOWS)"

text \<open>The primitive yields only non-negative frequencies.\<close>

definition yin_nonneg :: "yin \<Rightarrow> bool" where
  "yin_nonneg yin =
     (\<forall>segment sr f0 v. yin segment sr = Inr f0 \<and> Some v \<in> set f0 \<longrightarrow> 0 \<le> v)"

text \<open>The robust estimate of every coarse span, and the pre-scan point of every fine span.\<close>

definition coarse_hz :: "yin \<Rightarrow> real list \<Rightarrow> nat \<Rightarrow> nat \<Rightarrow> real list" where
  "coarse_hz yin y sr n =
     map (\<lambda>(start, end). robust_pitch_detection yin (py_slice y start end) sr)
       (segment_bounds (length y) n)"

definition midpoint_time_of :: "nat \<Rightarrow> nat \<times> nat \<Rightarrow> real" where
  "midpoint_time_of sr b = (of_nat (fst b) / of_nat sr + of_nat (snd b) / of_nat sr) / 2"

definition end_time_of :: "nat \<Rightarrow> nat \<times> nat \<Rightarrow> real" where
  "end_time_of sr b = of_nat (snd b) / of_nat sr"

definition prescan_points :: "yin \<Rightarrow> real list \<Rightarrow> nat \<Rightarrow> prescan_point list" where
  "prescan_points yin y sr =
     map (\<lambda>(start, end). \<lparr>p_time = midpoint_time_of sr (start, end),
                           p_hz = detect_pitch yin (py_slice y start end) sr\<rparr>)
       (segment_bounds (length y) PRE_SCAN_MARKS)"

text \<open>
  What mark \<open>i\<close> of \<^verbatim>\<open>main2.py\<close> is expected to emit: the smoothed value, or the rounded
  nearest valid pre-scan value when the smoothed one is below the floor; the mark number
  and the relative time before and after the reset boundary. The \<open>None\<close> branch of
  \<open>filled_value\<close> is never taken (lemma \<open>find_nearest_valid_hz_Some\<close>).
\<close>

definition filled_value :: "prescan_point list \<Rightarrow> real \<Rightarrow> real \<Rightarrow> real" where
  "filled_value prescan_data midpoint_time smoothed_hz =
     (if smoothed_hz < MIN_VALID_HZ
      then (case find_nearest_valid_hz midpoint_time prescan_data of
              None \<Rightarrow> smoothed_hz
            | Some replacement_hz \<Rightarrow> py_round replacement_hz 2)
      else smoothed_hz)"

definition excel_mark_of :: "nat \<Rightarrow> nat" where
  "excel_mark_of i = (if i < 10 then i + 1 else (i - 10) + 1)"

definition relative_time_of :: "nat \<Rightarrow> (nat \<times> nat) list \<Rightarrow> nat \<Rightarrow> real" where
  "relative_time_of sr segment_boundaries i =
     (if i < 10 then midpoint_time_of sr (segment_boundaries ! i)
      else midpoint_time_of sr (segment_boundaries ! i) - end_time_of sr (segment_boundaries ! 9))"

definition expected_mark2 :: "string \<Rightarrow> nat \<Rightarrow> prescan_point list \<Rightarrow> (nat \<times> nat) list \<Rightarrow>
    real list \<Rightarrow> nat \<Rightarrow> mark_result" where
  "expected_mark2 file_name sr prescan_data segment_boundaries smoothed i =
     \<lparr>sounding = file_name, time_mark = excel_mark_of i,
      relative_time_sec = py_round (relative_time_of sr segment_boundaries i) 3,
      hz = filled_value prescan_data (midpoint_time_of sr (segment_boundaries ! i)) (smoothed ! i)\<rparr>"

text \<open>The loop variables of \<^verbatim>\<open>main2.py\<close> after the first \<open>n\<close> rounds: the loop invariant.\<close>

definition state_after :: "string \<Rightarrow> nat \<Rightarrow> prescan_point list \<Rightarrow> (nat \<times> nat) list \<Rightarrow>
    real list \<Rightarrow> nat \<Rightarrow> loop_state" where
  "state_after file_name sr prescan_data segment_boundaries smoothed n =
     \<lparr>hz_values = map (\<lambda>i. if i < n
                           then filled_value prescan_data
                                  (midpoint_time_of sr (segment_boundaries ! i)) (smoothed ! i)
                           else smoothed ! i) [0..<length smoothed],
      results = map (expected_mark2 file_name sr prescan_data segment_boundaries smoothed) [0..<n],
      reset_time = (if 10 < n then end_time_of sr (segment_boundaries ! 9) else 0),
      prev_end_time = (if n = 0 then 0 else end_time_of sr (segment_boundaries ! (n - 1)))\<rparr>"

text \<open>
  Two primitives and a waveform for the concrete runs: \<open>frames_yin\<close> raises on the empty
  segment and otherwise reports every sample as one frame (a negative sample as NaN), so
  that a waveform spells out the track the primitive returns; \<open>failing_yin\<close> always
  raises.
\<close>

definition frames_yin :: yin where
  "frames_yin segment sr =
     (if segment = [] then Inl Exception
      else Inr (map (\<lambda>x. if x < 0 then None else Some x) segment))"

definition failing_yin :: yin where
  "failing_yin segment sr = Inl Exception"

definition example_wave :: "real list" where
  "example_wave = replicate 3 60 @ replicate 17 400"

section \<open>Helper lemmas\<close>

lemma foldl_snoc_map: "foldl (\<lambda>acc i. acc @ [f i]) a xs = a @ map f xs"
  by (induction xs arbitrary: a) simp_all

lemma smooth_hz_values_map:
  "smooth_hz_values hz_list =
     map (\<lambda>i. py_round (smooth_value hz_list i) 2) [0..<length hz_list]"
  by (simp add: smooth_hz_values_def foldl_snoc_map)

lemma segment_bounds_map: "segment_bounds total_len n = map (span_of total_len n) [0..<n]"
  by (simp add: segment_bounds_def foldl_snoc_map)

subsection \<open>The segmenter\<close>

lemma span_of_simp:
  "i < n \<Longrightarrow> span_of L n i = (i * (L div n), if i + 1 < n then (i + 1) * (L div n) else L)"
  by (auto simp: span_of_def Let_def)

lemma segment_bounds_nth:
  "i < n \<Longrightarrow> segment_bounds L n ! i = (i * (L div n), if i + 1 < n then (i + 1) * (L div n) else L)"
  by (simp add: segment_bounds_map span_of_simp)

lemma length_segment_bounds: "length (segment_bounds L n) = n"
  by (simp add: segment_bounds_map)

lemma mult_div_le_total: "k \<le> n \<Longrightarrow> k * (L div n) \<le> (L::nat)"
proof -
  assume "k \<le> n"
  then have "k * (L div n) \<le> n * (L div n)" by (rule mult_le_mono1)
  also have "\<dots> \<le> L" by simp
  finally show ?thesis .
qed

lemma span_start_le_end:
  assumes "i < n"
  shows "fst (segment_bounds L n ! i) \<le> snd (segment_bounds L n ! i)"
  using assms mult_div_le_total [of i n L] by (simp add: segment_bounds_nth)

lemma span_end_le_total:
  assumes "i < n"
  shows "snd (segment_bounds L n ! i) \<le> L"
  using assms mult_div_le_total [of "i + 1" n L] by (simp add: segment_bounds_nth)

lemma span_end_le_later_start:
  assumes "i < j" "j < n"
  shows "snd (segment_bounds L n ! i) \<le> fst (segment_bounds L n ! j)"
proof -
  have "(i + 1) * (L div n) \<le> j * (L div n)"
    using assms by (intro mult_le_mono1) simp
  then show ?thesis using assms by (simp add: segment_bounds_nth)
qed

lemma spans_cover:
  assumes "1 \<le> n"
  shows "(\<Union>i\<in>{0..<n}. {fst (segment_bounds L n ! i)..<snd (segment_bounds L n ! i)}) = {0..<L}"
proof (intro equalityI subsetI)
  fix x
  assume "x \<in> (\<Union>i\<in>{0..<n}. {fst (segment_bounds L n ! i)..<snd (segment_bounds L n ! i)})"
  then obtain i where i: "i < n" and x: "x < snd (segment_bounds L n ! i)" by auto
  from span_end_le_total [OF i, of L] x show "x \<in> {0..<L}" by simp
next
  fix x
  assume "x \<in> {0..<L}"
  then have xL: "x < L" by simp
  define w where "w = L div n"
  show "x \<in> (\<Union>i\<in>{0..<n}. {fst (segment_bounds L n ! i)..<snd (segment_bounds L n ! i)})"
  proof (cases "0 < w \<and> x div w + 1 < n")
    case True
    let ?i = "x div w"
    have i: "?i < n" using True by simp
    have lo: "?i * w \<le> x" by simp
    have hi: "x < (?i + 1) * w"
      using True dividend_less_div_times [of w x] by (simp add: algebra_simps)
    have "x \<in> {fst (segment_bounds L n ! ?i)..<snd (segment_bounds L n ! ?i)}"
      using True lo hi i by (simp add: segment_bounds_nth w_def)
    then show ?thesis using i by auto
  next
    case False
    let ?i = "n - 1"
    have i: "?i < n" using assms by simp
    have "(n - 1) * w \<le> x"
    proof (cases "0 < w")
      case True
      with False have "n - 1 \<le> x div w" by simp
      then have "(n - 1) * w \<le> (x div w) * w" by (rule mult_le_mono1)
      also have "\<dots> \<le> x" by simp
      finally show ?thesis .
    next
      case False
      then show ?thesis by simp
    qed
    then have "x \<in> {fst (segment_bounds L n ! ?i)..<snd (segment_bounds L n ! ?i)}"
      using i xL by (simp add: segment_bounds_nth w_def)
    then show ?thesis using i by (intro UN_I [of ?i]) auto
  qed
qed

subsection \<open>The smoother\<close>

lemma length_smooth_hz_values: "length (smooth_hz_values xs) = length xs"
  by (simp add: smooth_hz_values_map)

lemma smooth_hz_values_nth:
  "i < length xs \<Longrightarrow> smooth_hz_values xs ! i = py_round (smooth_value xs i) 2"
  by (simp add: smooth_hz_values_map)

lemma take2_nth: "2 \<le> length xs \<Longrightarrow> take 2 xs = [xs ! 0, xs ! 1]"
  by (cases xs; cases "tl xs") auto

lemma take3_drop_nth:
  assumes "j + 2 < length xs"
  shows "take 3 (drop j xs) = [xs ! j, xs ! (j + 1), xs ! (j + 2)]"
proof -
  have "drop j xs = xs ! j # xs ! (j + 1) # xs ! (j + 2) # drop (j + 3) xs"
    using assms by (simp add: Cons_nth_drop_Suc [symmetric] numeral_3_eq_3 eval_nat_numeral)
  then show ?thesis by (simp add: numeral_3_eq_3)
qed

lemma last2_nth:
  assumes "2 \<le> length xs"
  shows "py_last2 xs = [xs ! (length xs - 2), xs ! (length xs - 1)]"
proof -
  define j where "j = length xs - 2"
  have j: "j + 2 = length xs" using assms by (simp add: j_def)
  then have "drop j xs = xs ! j # xs ! (j + 1) # drop (j + 2) xs"
    by (simp add: Cons_nth_drop_Suc [symmetric])
  moreover have "length xs - 1 = j + 1" using j by simp
  ultimately show ?thesis using j by (simp add: py_last2_def j_def [symmetric])
qed

lemma smooth_value_first:
  "2 \<le> length xs \<Longrightarrow> smooth_value xs 0 = (xs ! 0 + xs ! 1) / 2"
  by (simp add: smooth_value_def py_slice_def take2_nth np_mean_def)

lemma smooth_value_last:
  assumes "2 \<le> length xs"
  shows "smooth_value xs (length xs - 1) = (xs ! (length xs - 2) + xs ! (length xs - 1)) / 2"
proof -
  have "length xs - 1 \<noteq> 0" "int (length xs - 1) = int (length xs) - 1"
    using assms by auto
  then show ?thesis
    using assms by (simp add: smooth_value_def last2_nth np_mean_def)
qed

lemma smooth_value_interior:
  assumes "0 < i" "i + 1 < length xs"
  shows "smooth_value xs i = (xs ! (i - 1) + xs ! i + xs ! (i + 1)) / 3"
proof -
  obtain j where j: "i = j + 1" using assms(1) by (cases i) auto
  have "int i \<noteq> int (length xs) - 1" using assms by auto
  moreover have "i + 2 - (i - 1) = 3" using assms by simp
  moreover have "take 3 (drop j xs) = [xs ! j, xs ! (j + 1), xs ! (j + 2)]"
    using assms j by (intro take3_drop_nth) simp
  ultimately show ?thesis
    using assms j by (simp add: smooth_value_def py_slice_def np_mean_def)
qed

lemma py_slice_replicate: "py_slice (replicate n v) a b = replicate (min (b - a) (n - a)) v"
  by (simp add: py_slice_def)

lemma py_last2_replicate: "py_last2 (replicate n v) = replicate (min 2 n) v"
proof -
  have "n - (n - 2) = min 2 n" by simp
  then show ?thesis by (simp add: py_last2_def)
qed

lemma np_mean_replicate: "0 < k \<Longrightarrow> np_mean (replicate k v) = v"
  by (simp add: np_mean_def sum_list_replicate)

lemma smooth_value_replicate:
  assumes "i < n"
  shows "smooth_value (replicate n v) i = v"
proof -
  have a: "0 < min (2 - 0) (n - 0)" using assms by linarith
  have b: "0 < min 2 n" using assms by linarith
  have c: "0 < min (i + 2 - (i - 1)) (n - (i - 1))" using assms by linarith
  show ?thesis
    unfolding smooth_value_def py_slice_replicate py_last2_replicate
    by (simp only: np_mean_replicate [OF a] np_mean_replicate [OF b]
          np_mean_replicate [OF c] if_cancel)
qed

lemma smooth_hz_values_replicate:
  "smooth_hz_values (replicate n v) = replicate n (py_round v 2)"
  by (rule nth_equalityI) (simp_all add: smooth_hz_values_map smooth_value_replicate)


subsection \<open>Nearest valid pre-scan point\<close>

lemma py_min_key_snoc:
  "py_min_key key x (xs @ [y]) =
     (if key y < key (py_min_key key x xs) then y else py_min_key key x xs)"
  by (simp add: py_min_key_def)

lemma py_min_key_first_minimum:
  "\<exists>j < length (x # xs).
      py_min_key key x xs = (x # xs) ! j
    \<and> (\<forall>k < length (x # xs). key ((x # xs) ! j) \<le> key ((x # xs) ! k))
    \<and> (\<forall>k < j. key ((x # xs) ! j) < key ((x # xs) ! k))"
proof (induction xs rule: rev_induct)
  case Nil
  show ?case by (simp add: py_min_key_def)
next
  case (snoc y xs)
  let ?vs = "x # xs"
  from snoc obtain j where j: "j < length ?vs"
    and best: "py_min_key key x xs = ?vs ! j"
    and least: "\<forall>k < length ?vs. key (?vs ! j) \<le> key (?vs ! k)"
    and first: "\<forall>k < j. key (?vs ! j) < key (?vs ! k)"
    by blast
  have app: "x # xs @ [y] = ?vs @ [y]" by simp
  have at_end: "(?vs @ [y]) ! length ?vs = y" by (rule nth_append_length)
  have before: "(?vs @ [y]) ! k = ?vs ! k" if "k < length ?vs" for k
    using that by (rule nth_append_left)
  have split: "k < length ?vs \<or> k = length ?vs" if "k < length (?vs @ [y])" for k
    using that by fastforce
  show ?case
  proof (cases "key y < key (?vs ! j)")
    case True
    let ?j = "length ?vs"
    have "py_min_key key x (xs @ [y]) = (?vs @ [y]) ! ?j"
      using True best by (simp only: py_min_key_snoc at_end if_True)
    moreover have "key ((?vs @ [y]) ! ?j) \<le> key ((?vs @ [y]) ! k)"
      if "k < length (?vs @ [y])" for k
    proof -
      from split [OF that] show ?thesis
      proof
        assume k: "k < length ?vs"
        then have "key (?vs ! j) \<le> key (?vs ! k)" using least by blast
        with True show ?thesis unfolding at_end before [OF k] by linarith
      next
        assume "k = length ?vs"
        then show ?thesis by simp
      qed
    qed
    moreover have "key ((?vs @ [y]) ! ?j) < key ((?vs @ [y]) ! k)" if k: "k < ?j" for k
    proof -
      have "key (?vs ! j) \<le> key (?vs ! k)" using least k by blast
      with True show ?thesis unfolding at_end before [OF k] by linarith
    qed
    moreover have "?j < length (?vs @ [y])" by simp
    ultimately show ?thesis unfolding app by blast
  next
    case False
    have jj: "(?vs @ [y]) ! j = ?vs ! j" using j by (rule before)
    have "py_min_key key x (xs @ [y]) = (?vs @ [y]) ! j"
      using False best jj by (simp only: py_min_key_snoc if_False)
    moreover have "key ((?vs @ [y]) ! j) \<le> key ((?vs @ [y]) ! k)"
      if "k < length (?vs @ [y])" for k
    proof -
      from split [OF that] show ?thesis
      proof
        assume k: "k < length ?vs"
        then have "key (?vs ! j) \<le> key (?vs ! k)" using least by blast
        then show ?thesis unfolding jj before [OF k] .
      next
        assume k: "k = length ?vs"
        from False show ?thesis unfolding k jj at_end by linarith
      qed
    qed
    moreover have "key ((?vs @ [y]) ! j) < key ((?vs @ [y]) ! k)" if k: "k < j" for k
    proof -
      have kl: "k < length ?vs" using j k by linarith
      have "key (?vs ! j) < key (?vs ! k)" using first k by blast
      then show ?thesis unfolding jj before [OF kl] .
    qed
    moreover have "j < length (?vs @ [y])" using j by simp
    ultimately show ?thesis unfolding app by blast
  qed
qed

lemma valid_point_iff: "valid_point p = (\<exists>h. p_hz p = Some h \<and> MIN_VALID_HZ \<le> h)"
  by (simp add: valid_point_def split: option.splits)

lemma find_nearest_valid_hz_empty:
  "filter valid_point ps = [] \<Longrightarrow> find_nearest_valid_hz t ps = Some MIN_VALID_HZ"
  by (simp add: find_nearest_valid_hz_def)

lemma find_nearest_valid_hz_nearest:
  assumes "filter valid_point ps \<noteq> []"
  shows "\<exists>j < length (filter valid_point ps).
      find_nearest_valid_hz t ps = p_hz (filter valid_point ps ! j)
    \<and> (\<forall>k < length (filter valid_point ps).
          \<bar>p_time (filter valid_point ps ! j) - t\<bar> \<le> \<bar>p_time (filter valid_point ps ! k) - t\<bar>)
    \<and> (\<forall>k < j. \<bar>p_time (filter valid_point ps ! j) - t\<bar> < \<bar>p_time (filter valid_point ps ! k) - t\<bar>)"
proof -
  obtain p rest where vs: "filter valid_point ps = p # rest"
    using assms by (cases "filter valid_point ps") auto
  have f: "find_nearest_valid_hz t ps = p_hz (py_min_key (\<lambda>p. \<bar>p_time p - t\<bar>) p rest)"
    by (simp add: find_nearest_valid_hz_def vs)
  from py_min_key_first_minimum [of p rest "\<lambda>p. \<bar>p_time p - t\<bar>"]
  show ?thesis unfolding vs f by metis
qed

lemma find_nearest_valid_hz_Some:
  "\<exists>h. find_nearest_valid_hz t ps = Some h \<and> MIN_VALID_HZ \<le> h"
proof (cases "filter valid_point ps = []")
  case True
  then show ?thesis by (simp add: find_nearest_valid_hz_empty)
next
  case False
  from find_nearest_valid_hz_nearest [OF False, of t]
  obtain j where j: "j < length (filter valid_point ps)"
    and f: "find_nearest_valid_hz t ps = p_hz (filter valid_point ps ! j)" by blast
  from j have "filter valid_point ps ! j \<in> set (filter valid_point ps)" by (rule nth_mem)
  then have "valid_point (filter valid_point ps ! j)" by simp
  then show ?thesis unfolding f by (simp add: valid_point_iff)
qed

subsection \<open>Robust estimation\<close>

lemma np_median_cases:
  assumes "xs \<noteq> []"
  shows "\<exists>a\<in>set xs. \<exists>b\<in>set xs. np_median xs = a \<or> np_median xs = (a + b) / 2"
proof -
  let ?s = "sort xs"
  let ?n = "length ?s"
  have n: "0 < ?n" using assms by simp
  have mem: "?s ! k \<in> set xs" if "k < ?n" for k
    using nth_mem [OF that] by simp
  have a: "?n div 2 < ?n" using n by simp
  have b: "?n div 2 - 1 < ?n" using n by linarith
  show ?thesis
  proof (cases "odd ?n")
    case True
    then have "np_median xs = ?s ! (?n div 2)" by (simp add: np_median_def Let_def)
    with mem [OF a] show ?thesis by blast
  next
    case False
    then have "np_median xs = (?s ! (?n div 2 - 1) + ?s ! (?n div 2)) / 2"
      by (simp add: np_median_def Let_def)
    with mem [OF a] mem [OF b] show ?thesis by blast
  qed
qed

lemma np_median_ge:
  assumes "xs \<noteq> []" and "\<forall>x\<in>set xs. lo \<le> x"
  shows "lo \<le> np_median xs"
proof -
  from np_median_cases [OF assms(1)] obtain a b where "a \<in> set xs" "b \<in> set xs"
    and m: "np_median xs = a \<or> np_median xs = (a + b) / 2" by blast
  then have "lo \<le> a" "lo \<le> b" using assms(2) by auto
  with m show ?thesis by auto
qed

lemma np_median_less:
  assumes "xs \<noteq> []" and "\<forall>x\<in>set xs. x < hi"
  shows "np_median xs < hi"
proof -
  from np_median_cases [OF assms(1)] obtain a b where "a \<in> set xs" "b \<in> set xs"
    and m: "np_median xs = a \<or> np_median xs = (a + b) / 2" by blast
  then have "a < hi" "b < hi" using assms(2) by auto
  with m show ?thesis by auto
qed

lemma map_filter_id_set: "set (List.map_filter (\<lambda>f. f) f0) = {v. Some v \<in> set f0}"
  by (induction f0) (auto simp: List.map_filter_simps split: option.splits)

lemma detect_pitch_SomeD:
  assumes "detect_pitch yin segment sr = Some h"
  shows "\<exists>f0. yin segment sr = Inr f0 \<and> List.map_filter (\<lambda>f. f) f0 \<noteq> []
           \<and> h = np_median (List.map_filter (\<lambda>f. f) f0)"
  using assms by (auto simp: detect_pitch_def Let_def split: sum.splits if_splits)

lemma detect_pitch_nonneg:
  assumes "yin_nonneg yin" and "detect_pitch yin segment sr = Some h"
  shows "0 \<le> h"
proof -
  from detect_pitch_SomeD [OF assms(2)] obtain f0 where f0: "yin segment sr = Inr f0"
    and ne: "List.map_filter (\<lambda>f. f) f0 \<noteq> []"
    and h: "h = np_median (List.map_filter (\<lambda>f. f) f0)" by blast
  have lo: "\<forall>x\<in>set (List.map_filter (\<lambda>f. f) f0). 0 \<le> x"
    using assms(1) f0 unfolding yin_nonneg_def map_filter_id_set by blast
  from np_median_ge [OF ne lo] show ?thesis unfolding h .
qed

lemma sub_window_step_append:
  "sub_window_step yin segment sr acc i =
     acc @ (case (case span_of (length segment) SUB_WINDOWS i of
                    (start, end) \<Rightarrow> accept_below_max (detect_pitch yin (py_slice segment start end) sr)) of
              None \<Rightarrow> [] | Some h \<Rightarrow> [h])"
  by (simp add: sub_window_step_def accept_below_max_def split: prod.splits option.splits)

lemma foldl_sub_window_step:
  "foldl (sub_window_step yin segment sr) acc is =
     acc @ List.map_filter
             (\<lambda>i. case span_of (length segment) SUB_WINDOWS i of
                     (start, end) \<Rightarrow> accept_below_max (detect_pitch yin (py_slice segment start end) sr))
             is"
proof (induction "is" arbitrary: acc)
  case Nil
  show ?case by (simp add: List.map_filter_simps)
next
  case (Cons i rest)
  have "foldl (sub_window_step yin segment sr) acc (i # rest) =
      foldl (sub_window_step yin segment sr) (sub_window_step yin segment sr acc i) rest"
    by simp
  also have "\<dots> = sub_window_step yin segment sr acc i @ List.map_filter
             (\<lambda>i. case span_of (length segment) SUB_WINDOWS i of
                     (start, end) \<Rightarrow> accept_below_max (detect_pitch yin (py_slice segment start end) sr))
             rest"
    by (rule Cons)
  finally show ?case
    by (simp add: sub_window_step_append [of yin segment sr acc i] List.map_filter_simps
          split: option.splits)
qed

lemma map_filter_map: "List.map_filter f (map g xs) = List.map_filter (\<lambda>x. f (g x)) xs"
  by (simp add: List.map_filter_def filter_map comp_def)

lemma sub_window_loop_eq:
  "foldl (sub_window_step yin segment sr) [] [0..<SUB_WINDOWS] = valid_sub_window_medians yin segment sr"
  by (simp add: foldl_sub_window_step valid_sub_window_medians_def segment_bounds_map map_filter_map)

lemma sub_window_fallback_eq:
  "sub_window_fallback yin segment sr =
     (if valid_sub_window_medians yin segment sr = [] then MAX_VALID_HZ
      else np_median (valid_sub_window_medians yin segment sr))"
  by (simp add: sub_window_fallback_def sub_window_loop_eq)

lemma valid_sub_window_medians_set:
  assumes "h \<in> set (valid_sub_window_medians yin segment sr)"
  shows "h < MAX_VALID_HZ \<and> (\<exists>sub. detect_pitch yin sub sr = Some h)"
  using assms
  by (auto simp: valid_sub_window_medians_def List.map_filter_def accept_below_max_def
        split: option.splits if_splits)

lemma sub_window_fallback_le: "sub_window_fallback yin segment sr \<le> MAX_VALID_HZ"
proof (cases "valid_sub_window_medians yin segment sr = []")
  case True
  then show ?thesis by (simp add: sub_window_fallback_eq)
next
  case False
  have "\<forall>x\<in>set (valid_sub_window_medians yin segment sr). x < MAX_VALID_HZ"
    using valid_sub_window_medians_set by blast
  from np_median_less [OF False this] show ?thesis
    using False by (simp add: sub_window_fallback_eq)
qed

lemma sub_window_fallback_nonneg:
  assumes "yin_nonneg yin"
  shows "0 \<le> sub_window_fallback yin segment sr"
proof (cases "valid_sub_window_medians yin segment sr = []")
  case True
  then show ?thesis by (simp add: sub_window_fallback_eq MAX_VALID_HZ_def)
next
  case False
  have "\<forall>x\<in>set (valid_sub_window_medians yin segment sr). 0 \<le> x"
    using valid_sub_window_medians_set detect_pitch_nonneg [OF assms] by blast
  from np_median_ge [OF False this] show ?thesis
    using False by (simp add: sub_window_fallback_eq)
qed

lemma robust_pitch_detection_le: "robust_pitch_detection yin segment sr \<le> MAX_VALID_HZ"
  using sub_window_fallback_le [of yin segment sr]
  by (simp add: robust_pitch_detection_def split: option.splits)

lemma robust_pitch_detection_nonneg:
  assumes "yin_nonneg yin"
  shows "0 \<le> robust_pitch_detection yin segment sr"
  using sub_window_fallback_nonneg [OF assms, of segment sr] detect_pitch_nonneg [OF assms, of segment sr]
  by (simp add: robust_pitch_detection_def split: option.splits)

lemma frames_yin_nonneg: "yin_nonneg frames_yin"
  by (auto simp: yin_nonneg_def frames_yin_def split: if_splits)

subsection \<open>The pipelines as maps over the marks\<close>

lemma midpoint_time_of_alt:
  "midpoint_time_of sr (s, e) = (of_nat (s + e) / 2) / of_nat sr"
  by (simp add: midpoint_time_of_def add_divide_distrib)

lemma foldl_pair_snoc:
  "foldl (\<lambda>(as, bs) i. (as @ [F i], bs @ [G i])) (as0, bs0) xs
   = (as0 @ map F xs, bs0 @ map G xs)"
  by (induction xs arbitrary: as0 bs0) simp_all

lemma estimate_marks_eq:
  "estimate_marks yin y sr n = (coarse_hz yin y sr n, segment_bounds (length y) n)"
  by (simp add: estimate_marks_def Let_def case_prod_beta foldl_pair_snoc coarse_hz_def
        segment_bounds_map comp_def)

lemma length_coarse_hz: "length (coarse_hz yin y sr n) = n"
  by (simp add: coarse_hz_def length_segment_bounds)

lemma emit_marks_eq:
  assumes "0 < sr" and "\<forall>i\<in>set is. i < length segment_boundaries \<and> i < length hzs"
  shows "emit_marks file_name sr hzs segment_boundaries is acc =
     Inr (acc @ map (\<lambda>i. \<lparr>sounding = file_name, time_mark = i + 1,
            relative_time_sec = py_round (midpoint_time_of sr (segment_boundaries ! i)) 3,
            hz = hzs ! i\<rparr>) is)"
  using assms
proof (induction "is" arbitrary: acc)
  case Nil
  then show ?case by simp
next
  case (Cons i rest)
  obtain s e where se: "segment_boundaries ! i = (s, e)" by (cases "segment_boundaries ! i")
  from Cons.prems have i: "i < length segment_boundaries" "i < length hzs" by auto
  from Cons.prems have rest: "\<forall>i\<in>set rest. i < length segment_boundaries \<and> i < length hzs" by auto
  show ?case
    using i Cons.prems(1) by (simp add: se Cons.IH [OF Cons.prems(1) rest] midpoint_time_of_alt)
qed

lemma emit_marks_zero_rate:
  assumes "is \<noteq> []" and "\<forall>i\<in>set is. i < length segment_boundaries"
  shows "emit_marks file_name 0 hzs segment_boundaries is acc = Inl ZeroDivisionError"
  using assms by (cases "is") (auto split: prod.splits)

lemma process_audio_file_eq:
  assumes "0 < sr"
  shows "process_audio_file yin file_name y sr =
     Inr (map (\<lambda>i. \<lparr>sounding = file_name, time_mark = i + 1,
            relative_time_sec = py_round (midpoint_time_of sr (segment_bounds (length y) TIME_MARKS ! i)) 3,
            hz = smooth_hz_values (coarse_hz yin y sr TIME_MARKS) ! i\<rparr>) [0..<TIME_MARKS])"
proof -
  have "\<forall>i\<in>set [0..<TIME_MARKS]. i < length (segment_bounds (length y) TIME_MARKS)
           \<and> i < length (smooth_hz_values (coarse_hz yin y sr TIME_MARKS))"
    by (simp add: length_segment_bounds length_smooth_hz_values length_coarse_hz)
  from emit_marks_eq [OF assms this] show ?thesis
    by (simp add: process_audio_file_def estimate_marks_eq)
qed

lemma process_audio_file_zero_rate:
  "process_audio_file yin file_name y 0 = Inl ZeroDivisionError"
proof -
  have "[0..<TIME_MARKS] \<noteq> []" by (simp add: TIME_MARKS_def)
  moreover have "\<forall>i\<in>set [0..<TIME_MARKS]. i < length (segment_bounds (length y) TIME_MARKS)"
    by (simp add: length_segment_bounds)
  ultimately show ?thesis
    by (simp add: process_audio_file_def estimate_marks_eq emit_marks_zero_rate)
qed

lemma prescan_loop_eq:
  assumes "0 < sr"
  shows "prescan_loop yin y sr is acc =
     Inr (acc @ map (\<lambda>i. \<lparr>p_time = midpoint_time_of sr (span_of (length y) PRE_SCAN_MARKS i),
            p_hz = detect_pitch yin (py_slice y (fst (span_of (length y) PRE_SCAN_MARKS i))
                     (snd (span_of (length y) PRE_SCAN_MARKS i))) sr\<rparr>) is)"
proof (induction "is" arbitrary: acc)
  case Nil
  show ?case by simp
next
  case (Cons i rest)
  obtain s e where se: "span_of (length y) PRE_SCAN_MARKS i = (s, e)"
    by (cases "span_of (length y) PRE_SCAN_MARKS i")
  show ?case using assms by (simp add: se Cons midpoint_time_of_alt)
qed

lemma prescan_300_marks_zero_rate: "prescan_300_marks yin y 0 = Inl ZeroDivisionError"
proof -
  have "[0..<PRE_SCAN_MARKS] = 0 # [1..<PRE_SCAN_MARKS]"
    by (simp add: PRE_SCAN_MARKS_def upt_rec)
  then show ?thesis
    by (simp add: prescan_300_marks_def split: prod.splits)
qed

subsection \<open>The loop of main2.py\<close>

lemma mark_loop_append:
  "mark_loop file_name sr ps bs (xs @ ys) st =
     (case mark_loop file_name sr ps bs xs st of
        Inl e \<Rightarrow> Inl e
      | Inr st' \<Rightarrow> mark_loop file_name sr ps bs ys st')"
  by (induction xs arbitrary: st) (simp_all split: sum.splits)

lemma mark_step_eq:
  assumes sr: "0 < sr" and n: "n < length bs" and len: "n < length (hz_values st)"
  shows "mark_step file_name sr ps bs n st =
     Inr \<lparr>hz_values = (hz_values st)[n := filled_value ps (midpoint_time_of sr (bs ! n)) (hz_values st ! n)],
          results = results st @
            [\<lparr>sounding = file_name, time_mark = excel_mark_of n,
              relative_time_sec = py_round
                (if n < 10 then midpoint_time_of sr (bs ! n)
                 else midpoint_time_of sr (bs ! n)
                        - (if n = 10 then prev_end_time st else reset_time st)) 3,
              hz = filled_value ps (midpoint_time_of sr (bs ! n)) (hz_values st ! n)\<rparr>],
          reset_time = (if n = 10 then prev_end_time st else reset_time st),
          prev_end_time = end_time_of sr (bs ! n)\<rparr>"
proof -
  obtain s e where se: "bs ! n = (s, e)" by (cases "bs ! n")
  let ?m = "midpoint_time_of sr (bs ! n)"
  obtain r where r: "find_nearest_valid_hz ?m ps = Some r"
    using find_nearest_valid_hz_Some [of ?m ps] by blast
  have m: "(real s / real sr + real e / real sr) / 2 = ?m"
    by (simp add: midpoint_time_of_def se)
  show ?thesis
  proof (cases "hz_values st ! n < MIN_VALID_HZ")
    case True
    then show ?thesis
      using sr n len r
      by (simp add: mark_step_def se m Let_def filled_value_def excel_mark_of_def end_time_of_def)
  next
    case False
    then show ?thesis
      using sr n len
      by (simp add: mark_step_def se m Let_def filled_value_def excel_mark_of_def end_time_of_def)
  qed
qed

lemma state_after_0:
  "state_after file_name sr ps bs smoothed 0 =
     \<lparr>hz_values = smoothed, results = [], reset_time = 0, prev_end_time = 0\<rparr>"
  by (simp add: state_after_def map_nth)

lemma results_state_after:
  "results (state_after file_name sr ps bs smoothed n)
     = map (expected_mark2 file_name sr ps bs smoothed) [0..<n]"
  by (simp add: state_after_def)

lemma mark_step_state_after:
  assumes sr: "0 < sr" and n: "n < length bs" and len: "length smoothed = length bs"
  shows "mark_step file_name sr ps bs n (state_after file_name sr ps bs smoothed n) =
     Inr (state_after file_name sr ps bs smoothed (Suc n))"
proof -
  let ?st = "state_after file_name sr ps bs smoothed n"
  have nl: "n < length (hz_values ?st)" using n len by (simp add: state_after_def)
  have at_n: "hz_values ?st ! n = smoothed ! n" using n len by (simp add: state_after_def)
  have upd: "(hz_values ?st)[n := v] =
      map (\<lambda>i. if i < Suc n then (if i = n then v else
                     filled_value ps (midpoint_time_of sr (bs ! i)) (smoothed ! i))
                else smoothed ! i) [0..<length smoothed]" for v
    using n len by (intro nth_equalityI) (auto simp: state_after_def nth_list_update)
  have hzs: "(hz_values ?st)[n := filled_value ps (midpoint_time_of sr (bs ! n)) (smoothed ! n)]
      = hz_values (state_after file_name sr ps bs smoothed (Suc n))"
    unfolding upd by (simp add: state_after_def) 
  have res: "(if n = 10 then prev_end_time ?st else reset_time ?st)
      = reset_time (state_after file_name sr ps bs smoothed (Suc n))"
    by (auto simp: state_after_def)
  have rel: "(if n < 10 then midpoint_time_of sr (bs ! n)
              else midpoint_time_of sr (bs ! n)
                     - reset_time (state_after file_name sr ps bs smoothed (Suc n)))
      = relative_time_of sr bs n"
    by (auto simp: state_after_def relative_time_of_def)
  show ?thesis
    unfolding mark_step_eq [OF sr n nl] at_n hzs res rel
    by (simp add: state_after_def expected_mark2_def)
qed

lemma mark_loop_state_after:
  assumes sr: "0 < sr" and n: "n \<le> length bs" and len: "length smoothed = length bs"
  shows "mark_loop file_name sr ps bs [0..<n] (state_after file_name sr ps bs smoothed 0) =
     Inr (state_after file_name sr ps bs smoothed n)"
  using n
proof (induction n)
  case 0
  show ?case by simp
next
  case (Suc n)
  then have n: "n < length bs" and IH: "mark_loop file_name sr ps bs [0..<n]
      (state_after file_name sr ps bs smoothed 0) = Inr (state_after file_name sr ps bs smoothed n)"
    by simp_all
  show ?case
    by (simp add: mark_loop_append IH mark_step_state_after [OF sr n len])
qed

lemma prescan_300_marks_eq:
  assumes "0 < sr"
  shows "prescan_300_marks yin y sr = Inr (prescan_points yin y sr)"
  by (simp add: prescan_300_marks_def prescan_loop_eq [OF assms] prescan_points_def
        segment_bounds_map case_prod_beta comp_def)

lemma process_audio_file2_eq:
  assumes "0 < sr"
  shows "process_audio_file2 yin file_name y sr =
     Inr (map (expected_mark2 file_name sr (prescan_points yin y sr)
                 (segment_bounds (length y) TIME_MARKS2)
                 (smooth_hz_values (coarse_hz yin y sr TIME_MARKS2)))
            [0..<TIME_MARKS2])"
proof -
  have len: "length (smooth_hz_values (coarse_hz yin y sr TIME_MARKS2))
      = length (segment_bounds (length y) TIME_MARKS2)"
    by (simp add: length_smooth_hz_values length_coarse_hz length_segment_bounds)
  have n: "TIME_MARKS2 \<le> length (segment_bounds (length y) TIME_MARKS2)"
    by (simp add: length_segment_bounds)
  have loop: "mark_loop file_name sr (prescan_points yin y sr)
        (segment_bounds (length y) TIME_MARKS2) [0..<TIME_MARKS2]
        \<lparr>hz_values = smooth_hz_values (coarse_hz yin y sr TIME_MARKS2), results = [],
           reset_time = 0, prev_end_time = 0\<rparr>
      = Inr (state_after file_name sr (prescan_points yin y sr)
               (segment_bounds (length y) TIME_MARKS2)
               (smooth_hz_values (coarse_hz yin y sr TIME_MARKS2)) TIME_MARKS2)"
    using mark_loop_state_after [OF assms n len, of file_name "prescan_points yin y sr"]
    unfolding state_after_0 .
  show ?thesis
    by (simp add: process_audio_file2_def prescan_300_marks_eq [OF assms] estimate_marks_eq
          loop results_state_after)
qed

lemma process_audio_file2_zero_rate:
  "process_audio_file2 yin file_name y 0 = Inl ZeroDivisionError"
  by (simp add: process_audio_file2_def prescan_300_marks_zero_rate)

subsection \<open>Bounds of rounding, means and smoothing\<close>

lemma round_half_even_ge: "of_int k \<le> z \<Longrightarrow> k \<le> round_half_even z"
proof -
  assume "of_int k \<le> z"
  then have "k \<le> \<lfloor>z\<rfloor>" by (simp add: le_floor_iff)
  then show ?thesis by (simp add: round_half_even_def Let_def)
qed

lemma round_half_even_le: "z \<le> of_int k \<Longrightarrow> round_half_even z \<le> k"
proof -
  assume z: "z \<le> of_int k"
  then have f: "\<lfloor>z\<rfloor> \<le> k" by (simp add: floor_le_iff)
  show ?thesis
  proof (cases "\<lfloor>z\<rfloor> = k")
    case True
    with z have "z - of_int \<lfloor>z\<rfloor> \<le> 0" by simp
    then have "z - of_int \<lfloor>z\<rfloor> < 1 / 2" by linarith
    then show ?thesis using True by (simp add: round_half_even_def Let_def)
  next
    case False
    with f have "\<lfloor>z\<rfloor> + 1 \<le> k" by linarith
    with f show ?thesis by (simp add: round_half_even_def Let_def)
  qed
qed

lemma py_round_ge:
  assumes "of_int k / 10 ^ nd \<le> x"
  shows "of_int k / 10 ^ nd \<le> py_round x nd"
proof -
  have "of_int k \<le> x * 10 ^ nd" using assms by (simp add: pos_divide_le_eq)
  then have "k \<le> round_half_even (x * 10 ^ nd)" by (rule round_half_even_ge)
  then have "(of_int k :: real) \<le> of_int (round_half_even (x * 10 ^ nd))" by simp
  then show ?thesis unfolding py_round_def by (simp add: divide_right_mono)
qed

lemma py_round_le:
  assumes "x \<le> of_int k / 10 ^ nd"
  shows "py_round x nd \<le> of_int k / 10 ^ nd"
proof -
  have "x * 10 ^ nd \<le> of_int k" using assms by (simp add: pos_le_divide_eq)
  then have "round_half_even (x * 10 ^ nd) \<le> k" by (rule round_half_even_le)
  then have "(of_int (round_half_even (x * 10 ^ nd)) :: real) \<le> of_int k" by simp
  then show ?thesis unfolding py_round_def by (simp add: divide_right_mono)
qed

lemma py_round_MAX_le: "x \<le> MAX_VALID_HZ \<Longrightarrow> py_round x 2 \<le> MAX_VALID_HZ"
  using py_round_le [of x 35000 2] by (simp add: MAX_VALID_HZ_def)

lemma py_round_MIN_ge: "MIN_VALID_HZ \<le> x \<Longrightarrow> MIN_VALID_HZ \<le> py_round x 2"
  using py_round_ge [of 7500 2 x] by (simp add: MIN_VALID_HZ_def)

lemma py_round_nonneg: "0 \<le> x \<Longrightarrow> 0 \<le> py_round x 2"
  using py_round_ge [of 0 2 x] by simp

lemma py_round_MAX: "py_round MAX_VALID_HZ 2 = MAX_VALID_HZ"
  by (simp add: py_round_def round_half_even_def MAX_VALID_HZ_def)

lemma sum_list_ge: "\<forall>x\<in>set xs. lo \<le> x \<Longrightarrow> of_nat (length xs) * lo \<le> sum_list (xs :: real list)"
  by (induction xs) (auto simp: algebra_simps)

lemma sum_list_le: "\<forall>x\<in>set xs. x \<le> hi \<Longrightarrow> sum_list (xs :: real list) \<le> of_nat (length xs) * hi"
  by (induction xs) (auto simp: algebra_simps)

lemma np_mean_ge:
  assumes "xs \<noteq> []" and "\<forall>x\<in>set xs. lo \<le> x"
  shows "lo \<le> np_mean xs"
proof -
  have "0 < real (length xs)" using assms(1) by simp
  then show ?thesis
    using sum_list_ge [OF assms(2)] by (simp add: np_mean_def pos_le_divide_eq mult.commute)
qed

lemma np_mean_le:
  assumes "xs \<noteq> []" and "\<forall>x\<in>set xs. x \<le> hi"
  shows "np_mean xs \<le> hi"
proof -
  have "0 < real (length xs)" using assms(1) by simp
  then show ?thesis
    using sum_list_le [OF assms(2)] by (simp add: np_mean_def pos_divide_le_eq mult.commute)
qed

lemma smooth_slices_nonempty:
  assumes "i < length xs"
  shows "\<exists>s. s \<noteq> [] \<and> set s \<subseteq> set xs \<and> smooth_value xs i = np_mean s"
proof -
  have ne: "xs \<noteq> []" using assms by auto
  have a: "py_slice xs 0 2 \<noteq> []" using ne by (simp add: py_slice_def)
  have "length xs - 2 < length xs" using assms by linarith
  then have b: "py_last2 xs \<noteq> []" by (simp add: py_last2_def)
  have "0 < i + 2 - (i - 1)" "i - 1 < length xs" using assms by linarith+
  then have c: "py_slice xs (i - 1) (i + 2) \<noteq> []" unfolding py_slice_def by simp
  have sa: "set (py_slice xs p q) \<subseteq> set xs" for p q
    unfolding py_slice_def using set_take_subset set_drop_subset by fast
  have sb: "set (py_last2 xs) \<subseteq> set xs"
    unfolding py_last2_def by (rule set_drop_subset)
  show ?thesis
    unfolding smooth_value_def using a b c sa sb by (metis (full_types))
qed

lemma smooth_hz_values_le:
  assumes "\<forall>x\<in>set xs. x \<le> MAX_VALID_HZ" and "v \<in> set (smooth_hz_values xs)"
  shows "v \<le> MAX_VALID_HZ"
proof -
  from assms(2) obtain i where i: "i < length xs" and v: "v = py_round (smooth_value xs i) 2"
    by (auto simp: smooth_hz_values_map)
  from smooth_slices_nonempty [OF i] obtain s where s: "s \<noteq> []" "set s \<subseteq> set xs"
    and m: "smooth_value xs i = np_mean s" by blast
  have "\<forall>x\<in>set s. x \<le> MAX_VALID_HZ" using assms(1) s(2) by blast
  from np_mean_le [OF s(1) this] show ?thesis unfolding v m by (rule py_round_MAX_le)
qed

lemma smooth_hz_values_nonneg:
  assumes "\<forall>x\<in>set xs. 0 \<le> x" and "v \<in> set (smooth_hz_values xs)"
  shows "0 \<le> v"
proof -
  from assms(2) obtain i where i: "i < length xs" and v: "v = py_round (smooth_value xs i) 2"
    by (auto simp: smooth_hz_values_map)
  from smooth_slices_nonempty [OF i] obtain s where s: "s \<noteq> []" "set s \<subseteq> set xs"
    and m: "smooth_value xs i = np_mean s" by blast
  have "\<forall>x\<in>set s. 0 \<le> x" using assms(1) s(2) by blast
  from np_mean_ge [OF s(1) this] show ?thesis unfolding v m by (rule py_round_nonneg)
qed

lemma coarse_hz_le: "\<forall>x\<in>set (coarse_hz yin y sr n). x \<le> MAX_VALID_HZ"
  by (auto simp: coarse_hz_def robust_pitch_detection_le)

lemma coarse_hz_nonneg: "yin_nonneg yin \<Longrightarrow> \<forall>x\<in>set (coarse_hz yin y sr n). 0 \<le> x"
  by (auto simp: coarse_hz_def robust_pitch_detection_nonneg)

lemma filled_value_ge: "MIN_VALID_HZ \<le> filled_value ps t h"
proof -
  obtain r where r: "find_nearest_valid_hz t ps = Some r" "MIN_VALID_HZ \<le> r"
    using find_nearest_valid_hz_Some [of t ps] by blast
  then show ?thesis by (simp add: filled_value_def py_round_MIN_ge)
qed

subsection \<open>A worked example\<close>

lemma find_nearest_valid_hz_cong:
  "filter valid_point ps = filter valid_point ps' \<Longrightarrow>
     find_nearest_valid_hz t ps = find_nearest_valid_hz t ps'"
  by (simp add: find_nearest_valid_hz_def)

lemma expected_mark2_cong:
  "filter valid_point ps = filter valid_point ps' \<Longrightarrow>
     expected_mark2 file_name sr ps bs smoothed i = expected_mark2 file_name sr ps' bs smoothed i"
  by (simp add: expected_mark2_def filled_value_def find_nearest_valid_hz_cong [of ps ps'])

lemma segment_bounds_short:
  assumes "L < Suc n"
  shows "segment_bounds L (Suc n) = replicate n (0, 0) @ [(0, L)]"
proof -
  have d: "L div Suc n = 0" using assms by simp
  have "map (span_of L (Suc n)) [0..<n] = replicate n (0, 0)"
    by (rule nth_equalityI) (simp_all add: span_of_simp d)
  moreover have "span_of L (Suc n) n = (0, L)" by (simp add: span_of_simp d)
  ultimately show ?thesis by (simp add: segment_bounds_map)
qed

lemma prescan_points_short:
  assumes "length y < PRE_SCAN_MARKS" and "detect_pitch yin [] sr = None"
  shows "filter valid_point (prescan_points yin y sr) =
         filter valid_point [\<lparr>p_time = midpoint_time_of sr (0, length y),
                               p_hz = detect_pitch yin y sr\<rparr>]"
proof -
  have P: "PRE_SCAN_MARKS = Suc 299" by (simp add: PRE_SCAN_MARKS_def)
  have L: "length y < Suc 299" using assms(1) unfolding P .
  have "\<not> valid_point \<lparr>p_time = midpoint_time_of sr (0, 0), p_hz = detect_pitch yin [] sr\<rparr>"
    by (simp add: valid_point_def assms(2))
  then show ?thesis
    unfolding prescan_points_def P segment_bounds_short [OF L]
    by (simp add: py_slice_def)
qed

lemma example_whole_wave: "detect_pitch frames_yin example_wave 2 = Some 400"
  by code_simp

lemma example_empty: "detect_pitch frames_yin [] sr = None"
  by (simp add: detect_pitch_def frames_yin_def)

lemma example_prescan:
  "filter valid_point (prescan_points frames_yin example_wave 2) =
   filter valid_point [\<lparr>p_time = 5, p_hz = Some 400\<rparr>]"
proof -
  have len: "length example_wave = 20" by (simp add: example_wave_def)
  have short: "length example_wave < PRE_SCAN_MARKS"
    by (simp add: len PRE_SCAN_MARKS_def)
  have mid: "midpoint_time_of 2 (0, 20) = 5" by (simp add: midpoint_time_of_def)
  from prescan_points_short [OF short example_empty, of 2] show ?thesis
    unfolding example_whole_wave len mid .
qed

lemma example_marks2:
  "map (expected_mark2 ''a.wav'' 2 [\<lparr>p_time = 5, p_hz = Some 400\<rparr>]
          (segment_bounds (length example_wave) TIME_MARKS2)
          (smooth_hz_values (coarse_hz frames_yin example_wave 2 TIME_MARKS2)))
     [0..<TIME_MARKS2] =
   [\<lparr>sounding = ''a.wav'', time_mark = 1, relative_time_sec = 1 / 4, hz = 400\<rparr>,
        \<lparr>sounding = ''a.wav'', time_mark = 2, relative_time_sec = 3 / 4, hz = 400\<rparr>,
        \<lparr>sounding = ''a.wav'', time_mark = 3, relative_time_sec = 5 / 4, hz = 15667 / 100\<rparr>,
        \<lparr>sounding = ''a.wav'', time_mark = 4, relative_time_sec = 7 / 4, hz = 25333 / 100\<rparr>,
        \<lparr>sounding = ''a.wav'', time_mark = 5, relative_time_sec = 9 / 4, hz = 350\<rparr>,
        \<lparr>sounding = ''a.wav'', time_mark = 6, relative_time_sec = 11 / 4, hz = 350\<rparr>,
        \<lparr>sounding = ''a.wav'', time_mark = 7, relative_time_sec = 13 / 4, hz = 350\<rparr>,
        \<lparr>sounding = ''a.wav'', time_mark = 8, relative_time_sec = 15 / 4, hz = 350\<rparr>,
        \<lparr>sounding = ''a.wav'', time_mark = 9, relative_time_sec = 17 / 4, hz = 350\<rparr>,
        \<lparr>sounding = ''a.wav'', time_mark = 10, relative_time_sec = 19 / 4, hz = 350\<rparr>,
        \<lparr>sounding = ''a.wav'', time_mark = 1, relative_time_sec = 1 / 4, hz = 350\<rparr>,
        \<lparr>sounding = ''a.wav'', time_mark = 2, relative_time_sec = 3 / 4, hz = 350\<rparr>,
        \<lparr>sounding = ''a.wav'', time_mark = 3, relative_time_sec = 5 / 4, hz = 350\<rparr>,
        \<lparr>sounding = ''a.wav'', time_mark = 4, relative_time_sec = 7 / 4, hz = 350\<rparr>,
        \<lparr>sounding = ''a.wav'', time_mark = 5, relative_time_sec = 9 / 4, hz = 350\<rparr>,
        \<lparr>sounding = ''a.wav'', time_mark = 6, relative_time_sec = 11 / 4, hz = 350\<rparr>,
        \<lparr>sounding = ''a.wav'', time_mark = 7, relative_time_sec = 13 / 4, hz = 350\<rparr>,
        \<lparr>sounding = ''a.wav'', time_mark = 8, relative_time_sec = 15 / 4, hz = 350\<rparr>,
        \<lparr>sounding = ''a.wav'', time_mark = 9, relative_time_sec = 17 / 4, hz = 350\<rparr>,
        \<lparr>sounding = ''a.wav'', time_mark = 10, relative_time_sec = 19 / 4, hz = 350\<rparr>]"
  by code_simp

lemma example_run2:
  "process_audio_file2 frames_yin ''a.wav'' example_wave 2 =
   Inr [\<lparr>sounding = ''a.wav'', time_mark = 1, relative_time_sec = 1 / 4, hz = 400\<rparr>,
        \<lparr>sounding = ''a.wav'', time_mark = 2, relative_time_sec = 3 / 4, hz = 400\<rparr>,
        \<lparr>sounding = ''a.wav'', time_mark = 3, relative_time_sec = 5 / 4, hz = 15667 / 100\<rparr>,
        \<lparr>sounding = ''a.wav'', time_mark = 4, relative_time_sec = 7 / 4, hz = 25333 / 100\<rparr>,
        \<lparr>sounding = ''a.wav'', time_mark = 5, relative_time_sec = 9 / 4, hz = 350\<rparr>,
        \<lparr>sounding = ''a.wav'', time_mark = 6, relative_time_sec = 11 / 4, hz = 350\<rparr>,
        \<lparr>sounding = ''a.wav'', time_mark = 7, relative_time_sec = 13 / 4, hz = 350\<rparr>,
        \<lparr>sounding = ''a.wav'', time_mark = 8, relative_time_sec = 15 / 4, hz = 350\<rparr>,
        \<lparr>sounding = ''a.wav'', time_mark = 9, relative_time_sec = 17 / 4, hz = 350\<rparr>,
        \<lparr>sounding = ''a.wav'', time_mark = 10, relative_time_sec = 19 / 4, hz = 350\<rparr>,
        \<lparr>sounding = ''a.wav'', time_mark = 1, relative_time_sec = 1 / 4, hz = 350\<rparr>,
        \<lparr>sounding = ''a.wav'', time_mark = 2, relative_time_sec = 3 / 4, hz = 350\<rparr>,
        \<lparr>sounding = ''a.wav'', time_mark = 3, relative_time_sec = 5 / 4, hz = 350\<rparr>,
        \<lparr>sounding = ''a.wav'', time_mark = 4, relative_time_sec = 7 / 4, hz = 350\<rparr>,
        \<lparr>sounding = ''a.wav'', time_mark = 5, relative_time_sec = 9 / 4, hz = 350\<rparr>,
        \<lparr>sounding = ''a.wav'', time_mark = 6, relative_time_sec = 11 / 4, hz = 350\<rparr>,
        \<lparr>sounding = ''a.wav'', time_mark = 7, relative_time_sec = 13 / 4, hz = 350\<rparr>,
        \<lparr>sounding = ''a.wav'', time_mark = 8, relative_time_sec = 15 / 4, hz = 350\<rparr>,
        \<lparr>sounding = ''a.wav'', time_mark = 9, relative_time_sec = 17 / 4, hz = 350\<rparr>,
        \<lparr>sounding = ''a.wav'', time_mark = 10, relative_time_sec = 19 / 4, hz = 350\<rparr>]"
proof -
  have two: "0 < (2::nat)" by simp
  have "map (expected_mark2 ''a.wav'' 2 (prescan_points frames_yin example_wave 2)
          (segment_bounds (length example_wave) TIME_MARKS2)
          (smooth_hz_values (coarse_hz frames_yin example_wave 2 TIME_MARKS2)))
     [0..<TIME_MARKS2] =
     map (expected_mark2 ''a.wav'' 2 [\<lparr>p_time = 5, p_hz = Some 400\<rparr>]
          (segment_bounds (length example_wave) TIME_MARKS2)
          (smooth_hz_values (coarse_hz frames_yin example_wave 2 TIME_MARKS2)))
     [0..<TIME_MARKS2]"
    by (rule map_cong [OF refl]) (rule expected_mark2_cong [OF example_prescan])
  then show ?thesis
    unfolding process_audio_file2_eq [OF two] example_marks2 by (rule arg_cong)
qed

subsection \<open>Failure of the primitive\<close>

lemma detect_pitch_raises: "yin segment sr = Inl e \<Longrightarrow> detect_pitch yin segment sr = None"
  by (simp add: detect_pitch_def)

lemma detect_pitch_no_frames:
  assumes "yin segment sr = Inr f0" and "\<forall>f\<in>set f0. f = None"
  shows "detect_pitch yin segment sr = None"
proof -
  have "set (List.map_filter (\<lambda>f. f) f0) = {}"
    unfolding map_filter_id_set using assms(2) by auto
  then show ?thesis by (simp add: detect_pitch_def assms(1))
qed

lemma robust_pitch_detection_all_fail:
  assumes "\<forall>segment r. isl (yin segment r)"
  shows "robust_pitch_detection yin segment sr = MAX_VALID_HZ"
proof -
  have none: "detect_pitch yin s r = None" for s r
  proof -
    have "isl (yin s r)" using assms by blast
    then obtain e where "yin s r = Inl e" by (auto simp: isl_def)
    then show ?thesis by (rule detect_pitch_raises)
  qed
  have "set (valid_sub_window_medians yin segment sr) = {}"
    using valid_sub_window_medians_set [of _ yin segment sr] none by fastforce
  then show ?thesis
    by (simp add: robust_pitch_detection_def none sub_window_fallback_eq)
qed

lemma coarse_hz_all_fail:
  assumes "\<forall>segment r. isl (yin segment r)"
  shows "coarse_hz yin y sr n = replicate n MAX_VALID_HZ"
  by (rule nth_equalityI)
    (simp_all add: coarse_hz_def robust_pitch_detection_all_fail [OF assms] case_prod_beta
       length_segment_bounds)

lemma smoothed_all_fail:
  assumes "\<forall>segment r. isl (yin segment r)"
  shows "smooth_hz_values (coarse_hz yin y sr n) = replicate n MAX_VALID_HZ"
  by (simp add: coarse_hz_all_fail [OF assms] smooth_hz_values_replicate py_round_MAX)

lemma process_audio_file_marks:
  assumes "0 < sr"
  shows "\<exists>ms. process_audio_file yin file_name y sr = Inr ms \<and> length ms = TIME_MARKS
     \<and> map hz ms = smooth_hz_values (coarse_hz yin y sr TIME_MARKS)"
proof -
  have "map (\<lambda>i. smooth_hz_values (coarse_hz yin y sr TIME_MARKS) ! i) [0..<TIME_MARKS]
      = smooth_hz_values (coarse_hz yin y sr TIME_MARKS)"
    using map_nth [of "smooth_hz_values (coarse_hz yin y sr TIME_MARKS)"]
    by (simp add: length_smooth_hz_values length_coarse_hz)
  then show ?thesis
    by (simp add: process_audio_file_eq [OF assms] comp_def)
qed

lemma process_audio_file_hz_range:
  assumes "0 < sr"
  shows "\<exists>ms. process_audio_file yin file_name y sr = Inr ms \<and> length ms = TIME_MARKS
     \<and> (\<forall>m\<in>set ms. hz m \<le> MAX_VALID_HZ)
     \<and> (yin_nonneg yin \<longrightarrow> (\<forall>m\<in>set ms. 0 \<le> hz m))
     \<and> ((\<forall>segment r. isl (yin segment r)) \<longrightarrow> (\<forall>m\<in>set ms. hz m = MAX_VALID_HZ))"
proof -
  from process_audio_file_marks [OF assms] obtain ms where
    ms: "process_audio_file yin file_name y sr = Inr ms" "length ms = TIME_MARKS"
    and hzs: "map hz ms = smooth_hz_values (coarse_hz yin y sr TIME_MARKS)" by blast
  have mem: "hz m \<in> set (smooth_hz_values (coarse_hz yin y sr TIME_MARKS))" if "m \<in> set ms" for m
    using that hzs by (metis image_eqI set_map)
  have "\<forall>m\<in>set ms. hz m \<le> MAX_VALID_HZ"
    using mem smooth_hz_values_le [OF coarse_hz_le] by blast
  moreover have "yin_nonneg yin \<longrightarrow> (\<forall>m\<in>set ms. 0 \<le> hz m)"
    using mem smooth_hz_values_nonneg [OF coarse_hz_nonneg] by blast
  moreover have "(\<forall>segment r. isl (yin segment r)) \<longrightarrow> (\<forall>m\<in>set ms. hz m = MAX_VALID_HZ)"
  proof (intro impI ballI)
    fix m assume a: "\<forall>segment r. isl (yin segment r)" and "m \<in> set ms"
    then have "hz m \<in> set (replicate TIME_MARKS MAX_VALID_HZ)"
      using mem smoothed_all_fail [OF a] by metis
    then show "hz m = MAX_VALID_HZ" by simp
  qed
  ultimately show ?thesis using ms by blast
qed

lemma hz_expected_mark2:
  "hz (expected_mark2 file_name sr ps bs smoothed i)
     = filled_value ps (midpoint_time_of sr (bs ! i)) (smoothed ! i)"
  by (simp add: expected_mark2_def)

lemma filled_value_unreplaced: "\<not> h < MIN_VALID_HZ \<Longrightarrow> filled_value ps t h = h"
  by (simp add: filled_value_def)

lemma filled_value_replaced:
  assumes "h < MIN_VALID_HZ"
  shows "\<exists>r. find_nearest_valid_hz t ps = Some r \<and> filled_value ps t h = py_round r 2"
proof -
  obtain r where "find_nearest_valid_hz t ps = Some r"
    using find_nearest_valid_hz_Some [of t ps] by blast
  then show ?thesis using assms by (simp add: filled_value_def)
qed

lemma process_audio_file2_hz_floor:
  assumes "0 < sr"
  shows "\<exists>ms. process_audio_file2 yin file_name y sr = Inr ms \<and> length ms = TIME_MARKS2
     \<and> (\<forall>m\<in>set ms. MIN_VALID_HZ \<le> hz m)
     \<and> ((\<forall>segment r. isl (yin segment r)) \<longrightarrow> (\<forall>m\<in>set ms. hz m = MAX_VALID_HZ))"
proof -
  let ?ms = "map (expected_mark2 file_name sr (prescan_points yin y sr)
                 (segment_bounds (length y) TIME_MARKS2)
                 (smooth_hz_values (coarse_hz yin y sr TIME_MARKS2))) [0..<TIME_MARKS2]"
  have "\<forall>m\<in>set ?ms. MIN_VALID_HZ \<le> hz m"
    by (auto simp: hz_expected_mark2 filled_value_ge)
  moreover have "(\<forall>segment r. isl (yin segment r)) \<longrightarrow> (\<forall>m\<in>set ?ms. hz m = MAX_VALID_HZ)"
  proof (intro impI)
    assume a: "\<forall>segment r. isl (yin segment r)"
    have "\<not> MAX_VALID_HZ < MIN_VALID_HZ" by (simp add: MAX_VALID_HZ_def MIN_VALID_HZ_def)
    then show "\<forall>m\<in>set ?ms. hz m = MAX_VALID_HZ"
      by (auto simp: hz_expected_mark2 smoothed_all_fail [OF a] filled_value_unreplaced)
  qed
  ultimately show ?thesis
    unfolding process_audio_file2_eq [OF assms] by simp
qed

lemma excel_marks_20:
  "map excel_mark_of [0..<20] = [1, 2, 3, 4, 5, 6, 7, 8, 9, 10, 1, 2, 3, 4, 5, 6, 7, 8, 9, 10]"
  by code_simp

lemma example_smoothed_first:
  "smooth_hz_values (fst (estimate_marks frames_yin example_wave 2 TIME_MARKS2)) ! 0 = 60"
proof -
  have "smooth_hz_values (coarse_hz frames_yin example_wave 2 TIME_MARKS2) ! 0 = 60"
    by code_simp
  then show ?thesis unfolding estimate_marks_eq fst_conv .
qed

subsection \<open>Order of the pre-scan and the reset anchor\<close>

lemma span_start_mono:
  assumes "i \<le> j" "j < n"
  shows "fst (segment_bounds L n ! i) \<le> fst (segment_bounds L n ! j)"
proof -
  have "i * (L div n) \<le> j * (L div n)" using assms(1) by (rule mult_le_mono1)
  then show ?thesis using assms by (simp add: segment_bounds_nth)
qed

lemma span_end_mono:
  assumes "i \<le> j" "j < n"
  shows "snd (segment_bounds L n ! i) \<le> snd (segment_bounds L n ! j)"
proof (cases "i = j")
  case True
  then show ?thesis by simp
next
  case False
  then have ij: "i < j" using assms(1) by simp
  have "snd (segment_bounds L n ! i) \<le> fst (segment_bounds L n ! j)"
    using ij assms(2) by (rule span_end_le_later_start)
  also have "\<dots> \<le> snd (segment_bounds L n ! j)"
    using assms(2) by (rule span_start_le_end)
  finally show ?thesis .
qed

lemma midpoint_time_mono:
  assumes "fst a \<le> fst b" "snd a \<le> snd b"
  shows "midpoint_time_of sr a \<le> midpoint_time_of sr b"
proof -
  have "real (fst a) / real sr \<le> real (fst b) / real sr"
    using assms(1) by (simp add: divide_right_mono)
  moreover have "real (snd a) / real sr \<le> real (snd b) / real sr"
    using assms(2) by (simp add: divide_right_mono)
  ultimately have "real (fst a) / real sr + real (snd a) / real sr
      \<le> real (fst b) / real sr + real (snd b) / real sr"
    by (rule add_mono)
  then show ?thesis unfolding midpoint_time_of_def by (rule divide_right_mono) simp
qed

lemma prescan_points_nth:
  assumes "i < PRE_SCAN_MARKS"
  shows "p_time (prescan_points yin y sr ! i)
     = midpoint_time_of sr (segment_bounds (length y) PRE_SCAN_MARKS ! i)"
  using assms by (simp add: prescan_points_def length_segment_bounds case_prod_beta)

lemma prescan_times_sorted: "sorted (map p_time (prescan_points yin y sr))"
proof -
  have len: "length (prescan_points yin y sr) = PRE_SCAN_MARKS"
    by (simp add: prescan_points_def length_segment_bounds)
  show ?thesis
  proof (rule sorted_iff_nth_mono [THEN iffD2], intro allI impI)
    fix i j assume ij: "i \<le> j" and "j < length (map p_time (prescan_points yin y sr))"
    then have j: "j < PRE_SCAN_MARKS" by (simp add: len)
    then have i: "i < PRE_SCAN_MARKS" using ij by simp
    have "midpoint_time_of sr (segment_bounds (length y) PRE_SCAN_MARKS ! i)
        \<le> midpoint_time_of sr (segment_bounds (length y) PRE_SCAN_MARKS ! j)"
      using span_start_mono [OF ij j] span_end_mono [OF ij j] by (rule midpoint_time_mono)
    then show "map p_time (prescan_points yin y sr) ! i \<le> map p_time (prescan_points yin y sr) ! j"
      using i j by (simp add: len prescan_points_nth)
  qed
qed

lemma reset_anchor_capture:
  assumes sr: "0 < sr" and len: "length smoothed = length bs" and n: "10 < length bs"
  shows "\<exists>st10 st11.
      mark_loop file_name sr ps bs [0..<10]
        \<lparr>hz_values = smoothed, results = [], reset_time = 0, prev_end_time = 0\<rparr> = Inr st10
    \<and> reset_time st10 = 0
    \<and> prev_end_time st10 = end_time_of sr (bs ! 9)
    \<and> mark_step file_name sr ps bs 10 st10 = Inr st11
    \<and> reset_time st11 = end_time_of sr (bs ! 9)"
proof -
  have n10: "10 \<le> length bs" and n10': "10 < length bs" using n by simp_all
  have a: "mark_loop file_name sr ps bs [0..<10]
        \<lparr>hz_values = smoothed, results = [], reset_time = 0, prev_end_time = 0\<rparr>
      = Inr (state_after file_name sr ps bs smoothed 10)"
    using mark_loop_state_after [OF sr n10 len, of file_name ps] unfolding state_after_0 .
  have b: "mark_step file_name sr ps bs 10 (state_after file_name sr ps bs smoothed 10)
      = Inr (state_after file_name sr ps bs smoothed (Suc 10))"
    using sr n10' len by (rule mark_step_state_after)
  have c: "reset_time (state_after file_name sr ps bs smoothed 10) = 0"
    "prev_end_time (state_after file_name sr ps bs smoothed 10) = end_time_of sr (bs ! 9)"
    "reset_time (state_after file_name sr ps bs smoothed (Suc 10)) = end_time_of sr (bs ! 9)"
    by (simp_all add: state_after_def)
  show ?thesis
    by (intro exI [of _ "state_after file_name sr ps bs smoothed 10"]
          exI [of _ "state_after file_name sr ps bs smoothed (Suc 10)"] conjI a b c)
qed

lemma prescan_times_on_grid:
  "map p_time (prescan_points yin y sr)
     = map (midpoint_time_of sr) (segment_bounds (length y) PRE_SCAN_MARKS)"
  by (simp add: prescan_points_def case_prod_beta)

section \<open>The claims\<close>

text \<open>
  Claim C1. Given a primitive that yields only non-negative frequencies,
  \<open>robust_pitch_detection\<close> returns a number in \<open>[0, MAX_VALID_HZ]\<close> for every segment and
  sample rate: the whole-segment median when it is concrete and strictly below
  \<open>MAX_VALID_HZ\<close>; otherwise the median of the sub-window medians that are concrete and
  strictly below \<open>MAX_VALID_HZ\<close>, the segment being tiled into \<open>SUB_WINDOWS\<close> spans by the
  segmenter, when there is one; otherwise \<open>MAX_VALID_HZ\<close>.
\<close>

theorem robust_pitch_detection_bounded:
  assumes "yin_nonneg yin"
  shows "0 \<le> robust_pitch_detection yin segment sr
    \<and> robust_pitch_detection yin segment sr \<le> MAX_VALID_HZ
    \<and> (\<forall>h. detect_pitch yin segment sr = Some h \<and> h < MAX_VALID_HZ
           \<longrightarrow> robust_pitch_detection yin segment sr = h)
    \<and> (\<not> (\<exists>h. detect_pitch yin segment sr = Some h \<and> h < MAX_VALID_HZ)
           \<longrightarrow> robust_pitch_detection yin segment sr =
                (if valid_sub_window_medians yin segment sr \<noteq> []
                 then np_median (valid_sub_window_medians yin segment sr)
                 else MAX_VALID_HZ))"
proof (intro conjI allI impI)
  show "0 \<le> robust_pitch_detection yin segment sr"
    using assms by (rule robust_pitch_detection_nonneg)
  show "robust_pitch_detection yin segment sr \<le> MAX_VALID_HZ"
    by (rule robust_pitch_detection_le)
next
  fix h assume "detect_pitch yin segment sr = Some h \<and> h < MAX_VALID_HZ"
  then show "robust_pitch_detection yin segment sr = h"
    by (simp add: robust_pitch_detection_def)
next
  assume "\<not> (\<exists>h. detect_pitch yin segment sr = Some h \<and> h < MAX_VALID_HZ)"
  then show "robust_pitch_detection yin segment sr =
                (if valid_sub_window_medians yin segment sr \<noteq> []
                 then np_median (valid_sub_window_medians yin segment sr)
                 else MAX_VALID_HZ)"
    by (auto simp: robust_pitch_detection_def sub_window_fallback_eq split: option.splits)
qed

theorem robust_pitch_detection_bounded_witness:
  "yin_nonneg frames_yin
   \<and> detect_pitch frames_yin [400, 100, 400, 120, 400, 400, 400, 90, 400, 400, 400] 2 = Some 400
   \<and> valid_sub_window_medians frames_yin [400, 100, 400, 120, 400, 400, 400, 90, 400, 400, 400] 2
       = [250, 260, 245]
   \<and> robust_pitch_detection frames_yin [400, 100, 400, 120, 400, 400, 400, 90, 400, 400, 400] 2 = 250
   \<and> robust_pitch_detection frames_yin [400, 100, 400, 120, 400, 400, 400, 90, 400, 400, 400] 2
       \<le> MAX_VALID_HZ"
proof -
  let ?seg = "[400, 100, 400, 120, 400, 400, 400, 90, 400, 400, 400] :: real list"
  have whole: "detect_pitch frames_yin ?seg 2 = Some 400" by code_simp
  have subs: "valid_sub_window_medians frames_yin ?seg 2 = [250, 260, 245]" by code_simp
  have med: "np_median [250, 260, 245] = 250" by code_simp
  have high: "\<not> (\<exists>h. detect_pitch frames_yin ?seg 2 = Some h \<and> h < MAX_VALID_HZ)"
    unfolding whole by (simp add: MAX_VALID_HZ_def)
  from robust_pitch_detection_bounded [OF frames_yin_nonneg, of ?seg 2] high
  have "robust_pitch_detection frames_yin ?seg 2 = 250"
    and "robust_pitch_detection frames_yin ?seg 2 \<le> MAX_VALID_HZ"
    unfolding subs med by simp_all
  with whole subs frames_yin_nonneg show ?thesis by simp
qed

text \<open>
  Claim C2, at the input where the code departs from it. With the waveform
  \<open>example_wave\<close> at sample rate 2, the first mark of \<^verbatim>\<open>main2.py\<close> has the smoothed value
  60, below \<open>MIN_VALID_HZ\<close>; it is replaced by the nearest valid pre-scan value, 400, which
  is emitted although it is above \<open>MAX_VALID_HZ\<close>.
\<close>

theorem gap_filled_hz_exceeds_max:
  "\<exists>ms. process_audio_file2 frames_yin ''a.wav'' example_wave 2 = Inr ms
      \<and> smooth_hz_values (fst (estimate_marks frames_yin example_wave 2 TIME_MARKS2)) ! 0 = 60
      \<and> hz (ms ! 0) = 400
      \<and> MAX_VALID_HZ < hz (ms ! 0)"
  unfolding example_run2 example_smoothed_first by (simp add: MAX_VALID_HZ_def)

text \<open>
  Claim C3. In \<^verbatim>\<open>main2.py\<close> the Hz sequence of the coarse marks is smoothed once, as a
  whole; mark \<open>i\<close> is emitted with the rounded \<open>find_nearest_valid_hz\<close> of its midpoint
  time exactly when its smoothed value is strictly below \<open>MIN_VALID_HZ\<close>, and with its
  smoothed value otherwise, so no replacement reaches the smoothing of another mark.
\<close>

theorem gap_filling_after_smoothing:
  assumes "0 < sr"
  shows "\<exists>ps hz0 bounds ms.
      prescan_300_marks yin y sr = Inr ps
    \<and> estimate_marks yin y sr TIME_MARKS2 = (hz0, bounds)
    \<and> process_audio_file2 yin file_name y sr = Inr ms
    \<and> length ms = TIME_MARKS2
    \<and> (\<forall>i<TIME_MARKS2.
          (smooth_hz_values hz0 ! i < MIN_VALID_HZ \<longrightarrow>
             (\<exists>r. find_nearest_valid_hz (midpoint_time_of sr (bounds ! i)) ps = Some r
                \<and> hz (ms ! i) = py_round r 2))
        \<and> (\<not> smooth_hz_values hz0 ! i < MIN_VALID_HZ \<longrightarrow>
             hz (ms ! i) = smooth_hz_values hz0 ! i))"
proof -
  let ?ps = "prescan_points yin y sr"
  let ?hz0 = "coarse_hz yin y sr TIME_MARKS2"
  let ?bounds = "segment_bounds (length y) TIME_MARKS2"
  let ?ms = "map (expected_mark2 file_name sr ?ps ?bounds (smooth_hz_values ?hz0)) [0..<TIME_MARKS2]"
  have a: "prescan_300_marks yin y sr = Inr ?ps"
    using assms by (rule prescan_300_marks_eq)
  have b: "estimate_marks yin y sr TIME_MARKS2 = (?hz0, ?bounds)"
    by (rule estimate_marks_eq)
  have c: "process_audio_file2 yin file_name y sr = Inr ?ms"
    using assms by (rule process_audio_file2_eq)
  have d: "length ?ms = TIME_MARKS2" by simp
  have e: "\<forall>i<TIME_MARKS2.
          (smooth_hz_values ?hz0 ! i < MIN_VALID_HZ \<longrightarrow>
             (\<exists>r. find_nearest_valid_hz (midpoint_time_of sr (?bounds ! i)) ?ps = Some r
                \<and> hz (?ms ! i) = py_round r 2))
        \<and> (\<not> smooth_hz_values ?hz0 ! i < MIN_VALID_HZ \<longrightarrow>
             hz (?ms ! i) = smooth_hz_values ?hz0 ! i)"
    by (simp add: hz_expected_mark2 filled_value_replaced filled_value_unreplaced)
  show ?thesis
    by (intro exI [of _ ?ps] exI [of _ ?hz0] exI [of _ ?bounds] exI [of _ ?ms] conjI a b c d e)
qed

theorem gap_filling_after_smoothing_witness:
  "0 < (2::nat)
   \<and> (\<exists>ms. process_audio_file2 frames_yin ''a.wav'' example_wave 2 = Inr ms
         \<and> length ms = 20
         \<and> smooth_hz_values (fst (estimate_marks frames_yin example_wave 2 TIME_MARKS2)) ! 0
             < MIN_VALID_HZ
         \<and> hz (ms ! 0) = py_round 400 2
         \<and> hz (ms ! 4) = 350)"
proof -
  have two: "0 < (2::nat)" by simp
  from gap_filling_after_smoothing [OF two, of frames_yin example_wave "''a.wav''"]
  obtain ms where ms: "process_audio_file2 frames_yin ''a.wav'' example_wave 2 = Inr ms"
    and len: "length ms = TIME_MARKS2" by blast
  have r: "py_round 400 2 = 400" by (simp add: py_round_def round_half_even_def)
  from ms have "hz (ms ! 0) = py_round 400 2" "hz (ms ! 4) = 350"
    unfolding example_run2 r by auto
  moreover have "smooth_hz_values (fst (estimate_marks frames_yin example_wave 2 TIME_MARKS2)) ! 0
      < MIN_VALID_HZ"
    unfolding example_smoothed_first by (simp add: MIN_VALID_HZ_def)
  moreover have "length ms = 20" using len by (simp add: TIME_MARKS2_def)
  ultimately show ?thesis using ms two by blast
qed

text \<open>
  Claim C4. For every length \<open>L\<close> and span count \<open>n \<ge> 1\<close> the segmenter yields exactly
  \<open>n\<close> spans: the first starts at 0, the last ends at \<open>L\<close>, each span ends where the
  next one starts, every span but the last has width \<open>L div n\<close>, the last one has width
  \<open>L div n + L mod n\<close> with a remainder below \<open>n\<close>, the spans are pairwise disjoint
  and their union is \<open>{0..<L}\<close>. The coarse marks of both pipelines and the pre-scan
  points lie on this tiling.
\<close>

theorem segmenter_tiling:
  assumes "1 \<le> n"
  shows "length (segment_bounds L n) = n
    \<and> fst (segment_bounds L n ! 0) = 0
    \<and> snd (segment_bounds L n ! (n - 1)) = L
    \<and> (\<forall>i. i + 1 < n \<longrightarrow> snd (segment_bounds L n ! i) = fst (segment_bounds L n ! (i + 1)))
    \<and> (\<forall>i. i + 1 < n \<longrightarrow>
          snd (segment_bounds L n ! i) - fst (segment_bounds L n ! i) = L div n)
    \<and> snd (segment_bounds L n ! (n - 1)) - fst (segment_bounds L n ! (n - 1))
        = L div n + L mod n
    \<and> L mod n < n
    \<and> (\<forall>i < n. fst (segment_bounds L n ! i) \<le> snd (segment_bounds L n ! i))
    \<and> (\<forall>i j. i < j \<and> j < n \<longrightarrow>
          {fst (segment_bounds L n ! i)..<snd (segment_bounds L n ! i)}
            \<inter> {fst (segment_bounds L n ! j)..<snd (segment_bounds L n ! j)} = {})
    \<and> (\<Union>i\<in>{0..<n}. {fst (segment_bounds L n ! i)..<snd (segment_bounds L n ! i)}) = {0..<L}
    \<and> snd (estimate_marks yin y sr n) = segment_bounds (length y) n
    \<and> (0 < sr \<longrightarrow>
          (\<exists>ps. prescan_300_marks yin y sr = Inr ps
             \<and> map p_time ps
                 = map (midpoint_time_of sr) (segment_bounds (length y) PRE_SCAN_MARKS)))"
proof (intro conjI allI impI)
  show "length (segment_bounds L n) = n" by (rule length_segment_bounds)
  show "fst (segment_bounds L n ! 0) = 0" using assms by (simp add: segment_bounds_nth)
  show "snd (segment_bounds L n ! (n - 1)) = L" using assms by (simp add: segment_bounds_nth)
  show "L mod n < n" using assms by simp
  show "snd (segment_bounds L n ! (n - 1)) - fst (segment_bounds L n ! (n - 1)) = L div n + L mod n"
  proof -
    have e: "L = n * (L div n) + L mod n" by simp
    have "n * (L div n) = (n - 1) * (L div n) + L div n"
      using assms by (cases n) simp_all
    with e have "L - (n - 1) * (L div n) = L div n + L mod n" by linarith
    then show ?thesis using assms by (simp add: segment_bounds_nth)
  qed
  show "snd (estimate_marks yin y sr n) = segment_bounds (length y) n"
    by (simp add: estimate_marks_eq)
next
  fix i assume "i + 1 < n"
  then show "snd (segment_bounds L n ! i) = fst (segment_bounds L n ! (i + 1))"
    by (simp add: segment_bounds_nth)
next
  fix i assume "i + 1 < n"
  then show "snd (segment_bounds L n ! i) - fst (segment_bounds L n ! i) = L div n"
    by (simp add: segment_bounds_nth)
next
  fix i assume "i < n"
  then show "fst (segment_bounds L n ! i) \<le> snd (segment_bounds L n ! i)"
    by (rule span_start_le_end)
next
  fix i j assume "i < j \<and> j < n"
  then have "snd (segment_bounds L n ! i) \<le> fst (segment_bounds L n ! j)"
    using span_end_le_later_start by blast
  then show "{fst (segment_bounds L n ! i)..<snd (segment_bounds L n ! i)}
            \<inter> {fst (segment_bounds L n ! j)..<snd (segment_bounds L n ! j)} = {}"
    by auto
next
  show "(\<Union>i\<in>{0..<n}. {fst (segment_bounds L n ! i)..<snd (segment_bounds L n ! i)}) = {0..<L}"
    using assms by (rule spans_cover)
next
  assume "0 < sr"
  then have "prescan_300_marks yin y sr = Inr (prescan_points yin y sr)"
    by (rule prescan_300_marks_eq)
  then show "\<exists>ps. prescan_300_marks yin y sr = Inr ps
             \<and> map p_time ps
                 = map (midpoint_time_of sr) (segment_bounds (length y) PRE_SCAN_MARKS)"
    using prescan_times_on_grid by blast
qed

theorem segmenter_tiling_witness:
  "(1::nat) \<le> 3 \<and> segment_bounds 10 3 = [(0, 3), (3, 6), (6, 10)]
   \<and> length (segment_bounds 10 3) = 3 \<and> snd (segment_bounds 10 3 ! (3 - 1)) = 10"
  using segmenter_tiling [of 3 10]
  by (simp add: segment_bounds_map span_of_def upt_rec)

text \<open>
  Claim C5. \<^verbatim>\<open>main2.py\<close> emits 20 marks numbered 1 to 10 and again 1 to 10. Marks 0 to
  9 carry the midpoint time of their span, marks 10 to 19 the midpoint time minus the
  anchor, each rounded to 3 decimals on output. The anchor is captured in round 10 from
  \<^verbatim>\<open>prev_end_time\<close>, which then holds the end time of span 9.
\<close>

theorem reset_boundary_renumbering:
  assumes "0 < sr"
  shows "\<exists>ms. process_audio_file2 yin file_name y sr = Inr ms
    \<and> length ms = 20
    \<and> snd (estimate_marks yin y sr TIME_MARKS2) = segment_bounds (length y) 20
    \<and> map time_mark ms = [1, 2, 3, 4, 5, 6, 7, 8, 9, 10, 1, 2, 3, 4, 5, 6, 7, 8, 9, 10]
    \<and> (\<forall>i<10. time_mark (ms ! i) = i + 1
          \<and> relative_time_sec (ms ! i)
              = py_round (midpoint_time_of sr (segment_bounds (length y) 20 ! i)) 3)
    \<and> (\<forall>i. 10 \<le> i \<and> i < 20 \<longrightarrow> time_mark (ms ! i) = (i - 10) + 1
          \<and> relative_time_sec (ms ! i)
              = py_round (midpoint_time_of sr (segment_bounds (length y) 20 ! i)
                          - end_time_of sr (segment_bounds (length y) 20 ! 9)) 3)
    \<and> (\<exists>st10 st11.
          mark_loop file_name sr (prescan_points yin y sr) (segment_bounds (length y) 20) [0..<10]
            \<lparr>hz_values = smooth_hz_values (coarse_hz yin y sr 20), results = [],
               reset_time = 0, prev_end_time = 0\<rparr> = Inr st10
        \<and> reset_time st10 = 0
        \<and> prev_end_time st10 = end_time_of sr (segment_bounds (length y) 20 ! 9)
        \<and> mark_step file_name sr (prescan_points yin y sr) (segment_bounds (length y) 20) 10 st10
            = Inr st11
        \<and> reset_time st11 = end_time_of sr (segment_bounds (length y) 20 ! 9))"
proof -
  have T: "TIME_MARKS2 = 20" by (simp add: TIME_MARKS2_def)
  let ?e = "expected_mark2 file_name sr (prescan_points yin y sr)
                 (segment_bounds (length y) 20)
                 (smooth_hz_values (coarse_hz yin y sr 20))"
  have run: "process_audio_file2 yin file_name y sr = Inr (map ?e [0..<20])"
    using process_audio_file2_eq [OF assms, of yin file_name y] unfolding T .
  have len: "length (map ?e [0..<20]) = 20" by simp
  have tm: "time_mark (?e i) = excel_mark_of i" for i by (simp add: expected_mark2_def)
  have rt: "relative_time_sec (?e i)
      = py_round (relative_time_of sr (segment_bounds (length y) 20) i) 3" for i
    by (simp add: expected_mark2_def)
  have "map time_mark (map ?e [0..<20]) = map excel_mark_of [0..<20]"
    by (simp add: tm comp_def)
  then have marks: "map time_mark (map ?e [0..<20])
      = [1, 2, 3, 4, 5, 6, 7, 8, 9, 10, 1, 2, 3, 4, 5, 6, 7, 8, 9, 10]"
    unfolding excel_marks_20 .
  have first: "\<forall>i<10. time_mark (map ?e [0..<20] ! i) = i + 1
          \<and> relative_time_sec (map ?e [0..<20] ! i)
              = py_round (midpoint_time_of sr (segment_bounds (length y) 20 ! i)) 3"
    by (simp add: tm rt excel_mark_of_def relative_time_of_def)
  have second: "\<forall>i. 10 \<le> i \<and> i < 20 \<longrightarrow> time_mark (map ?e [0..<20] ! i) = (i - 10) + 1
          \<and> relative_time_sec (map ?e [0..<20] ! i)
              = py_round (midpoint_time_of sr (segment_bounds (length y) 20 ! i)
                          - end_time_of sr (segment_bounds (length y) 20 ! 9)) 3"
    by (simp add: tm rt excel_mark_of_def relative_time_of_def)
  have grid: "snd (estimate_marks yin y sr TIME_MARKS2) = segment_bounds (length y) 20"
    by (simp add: estimate_marks_eq T)
  have "length (smooth_hz_values (coarse_hz yin y sr 20)) = length (segment_bounds (length y) 20)"
    by (simp add: length_smooth_hz_values length_coarse_hz length_segment_bounds)
  moreover have "10 < length (segment_bounds (length y) 20)"
    by (simp add: length_segment_bounds)
  ultimately have anchor: "\<exists>st10 st11.
          mark_loop file_name sr (prescan_points yin y sr) (segment_bounds (length y) 20) [0..<10]
            \<lparr>hz_values = smooth_hz_values (coarse_hz yin y sr 20), results = [],
               reset_time = 0, prev_end_time = 0\<rparr> = Inr st10
        \<and> reset_time st10 = 0
        \<and> prev_end_time st10 = end_time_of sr (segment_bounds (length y) 20 ! 9)
        \<and> mark_step file_name sr (prescan_points yin y sr) (segment_bounds (length y) 20) 10 st10
            = Inr st11
        \<and> reset_time st11 = end_time_of sr (segment_bounds (length y) 20 ! 9)"
    by (rule reset_anchor_capture [OF assms])
  show ?thesis
    by (intro exI [of _ "map ?e [0..<20]"] conjI run len grid marks first second anchor)
qed

theorem reset_boundary_renumbering_witness:
  "0 < (2::nat)
   \<and> (\<exists>ms. process_audio_file2 frames_yin ''a.wav'' example_wave 2 = Inr ms
         \<and> map time_mark ms = [1, 2, 3, 4, 5, 6, 7, 8, 9, 10, 1, 2, 3, 4, 5, 6, 7, 8, 9, 10]
         \<and> relative_time_sec (ms ! 9) = 19 / 4
         \<and> relative_time_sec (ms ! 10) = 1 / 4)"
proof -
  have two: "0 < (2::nat)" by simp
  from reset_boundary_renumbering [OF two, of frames_yin "''a.wav''" example_wave]
  obtain ms where ms: "process_audio_file2 frames_yin ''a.wav'' example_wave 2 = Inr ms"
    and rest: "length ms = 20
    \<and> snd (estimate_marks frames_yin example_wave 2 TIME_MARKS2)
        = segment_bounds (length example_wave) 20
    \<and> map time_mark ms = [1, 2, 3, 4, 5, 6, 7, 8, 9, 10, 1, 2, 3, 4, 5, 6, 7, 8, 9, 10]"
    by (elim exE conjE) (rule that, assumption, intro conjI)
  note marks = rest [THEN conjunct2, THEN conjunct2]
  have eq: "ms = projr (process_audio_file2 frames_yin ''a.wav'' example_wave 2)"
    unfolding ms by simp
  have "relative_time_sec (ms ! 9) = 19 / 4" "relative_time_sec (ms ! 10) = 1 / 4"
    unfolding eq example_run2 by simp_all
  with ms marks two show ?thesis by (intro conjI exI [of _ ms])
qed

text \<open>
  Claim C6. \<open>find_nearest_valid_hz\<close> keeps the pre-scan points with a concrete Hz of at
  least \<open>MIN_VALID_HZ\<close>. When none is left it returns \<open>MIN_VALID_HZ\<close>; otherwise it returns
  the Hz of a kept point whose distance to the query time is minimal, every kept point
  before it being strictly farther. The result is always concrete and at least
  \<open>MIN_VALID_HZ\<close>. The pre-scan lists its points by non-decreasing time.
\<close>

theorem find_nearest_valid_hz_first_closest:
  "(filter (\<lambda>p. \<exists>h. p_hz p = Some h \<and> MIN_VALID_HZ \<le> h) ps = []
      \<longrightarrow> find_nearest_valid_hz t ps = Some MIN_VALID_HZ)
   \<and> (filter (\<lambda>p. \<exists>h. p_hz p = Some h \<and> MIN_VALID_HZ \<le> h) ps \<noteq> []
      \<longrightarrow> (\<exists>j < length (filter (\<lambda>p. \<exists>h. p_hz p = Some h \<and> MIN_VALID_HZ \<le> h) ps).
             find_nearest_valid_hz t ps
               = p_hz (filter (\<lambda>p. \<exists>h. p_hz p = Some h \<and> MIN_VALID_HZ \<le> h) ps ! j)
           \<and> (\<forall>k < length (filter (\<lambda>p. \<exists>h. p_hz p = Some h \<and> MIN_VALID_HZ \<le> h) ps).
                 \<bar>p_time (filter (\<lambda>p. \<exists>h. p_hz p = Some h \<and> MIN_VALID_HZ \<le> h) ps ! j) - t\<bar>
                   \<le> \<bar>p_time (filter (\<lambda>p. \<exists>h. p_hz p = Some h \<and> MIN_VALID_HZ \<le> h) ps ! k) - t\<bar>)
           \<and> (\<forall>k < j.
                 \<bar>p_time (filter (\<lambda>p. \<exists>h. p_hz p = Some h \<and> MIN_VALID_HZ \<le> h) ps ! j) - t\<bar>
                   < \<bar>p_time (filter (\<lambda>p. \<exists>h. p_hz p = Some h \<and> MIN_VALID_HZ \<le> h) ps ! k) - t\<bar>)))
   \<and> (\<exists>h. find_nearest_valid_hz t ps = Some h \<and> MIN_VALID_HZ \<le> h)
   \<and> (0 < sr \<longrightarrow>
        (\<exists>scan. prescan_300_marks yin y sr = Inr scan \<and> sorted (map p_time scan)))"
proof -
  have eq: "filter (\<lambda>p. \<exists>h. p_hz p = Some h \<and> MIN_VALID_HZ \<le> h) ps = filter valid_point ps"
    by (rule filter_cong) (simp_all add: valid_point_iff)
  have scan: "0 < sr \<longrightarrow>
        (\<exists>scan. prescan_300_marks yin y sr = Inr scan \<and> sorted (map p_time scan))"
    using prescan_300_marks_eq [of sr yin y] prescan_times_sorted [of yin y sr] by blast
  show ?thesis
    unfolding eq
    using find_nearest_valid_hz_empty [of ps t] find_nearest_valid_hz_nearest [of ps t]
      find_nearest_valid_hz_Some [of t ps] scan
    by blast
qed

theorem find_nearest_valid_hz_first_closest_witness:
  "find_nearest_valid_hz 3
     [\<lparr>p_time = 1, p_hz = Some 60\<rparr>, \<lparr>p_time = 2, p_hz = Some 100\<rparr>,
      \<lparr>p_time = 3, p_hz = None\<rparr>, \<lparr>p_time = 4, p_hz = Some 200\<rparr>] = Some 100
   \<and> find_nearest_valid_hz 3 [\<lparr>p_time = 3, p_hz = None\<rparr>, \<lparr>p_time = 3, p_hz = Some 74\<rparr>]
       = Some MIN_VALID_HZ"
proof -
  let ?none = "[\<lparr>p_time = 3, p_hz = None\<rparr>, \<lparr>p_time = 3, p_hz = Some 74\<rparr>]"
  have "filter (\<lambda>p. \<exists>h. p_hz p = Some h \<and> MIN_VALID_HZ \<le> h) ?none = []"
    by (simp add: MIN_VALID_HZ_def)
  with find_nearest_valid_hz_first_closest [of ?none 3]
  have "find_nearest_valid_hz 3 ?none = Some MIN_VALID_HZ" by blast
  moreover have "find_nearest_valid_hz 3
     [\<lparr>p_time = 1, p_hz = Some 60\<rparr>, \<lparr>p_time = 2, p_hz = Some 100\<rparr>,
      \<lparr>p_time = 3, p_hz = None\<rparr>, \<lparr>p_time = 4, p_hz = Some 200\<rparr>] = Some 100"
    by (simp add: find_nearest_valid_hz_def valid_point_def py_min_key_def MIN_VALID_HZ_def)
  ultimately show ?thesis by simp
qed

text \<open>
  Claim C7. The smoothed sequence has the length of the input; for an input of length at
  least 2 its first element is the mean of the first two inputs, its last element the
  mean of the last two, and every interior element the mean of the input at positions
  \<open>i - 1\<close>, \<open>i\<close>, \<open>i + 1\<close>, each rounded to 2 decimal digits.
\<close>

theorem smooth_hz_values_neighbour_means:
  "length (smooth_hz_values xs) = length xs
   \<and> (2 \<le> length xs \<longrightarrow>
        smooth_hz_values xs ! 0 = py_round ((xs ! 0 + xs ! 1) / 2) 2
      \<and> smooth_hz_values xs ! (length xs - 1)
          = py_round ((xs ! (length xs - 2) + xs ! (length xs - 1)) / 2) 2
      \<and> (\<forall>i. 0 < i \<and> i + 1 < length xs \<longrightarrow>
            smooth_hz_values xs ! i
              = py_round ((xs ! (i - 1) + xs ! i + xs ! (i + 1)) / 3) 2))"
proof (intro conjI impI allI)
  show "length (smooth_hz_values xs) = length xs" by (rule length_smooth_hz_values)
next
  assume *: "2 \<le> length xs"
  then have "0 < length xs" by linarith
  with * show "smooth_hz_values xs ! 0 = py_round ((xs ! 0 + xs ! 1) / 2) 2"
    by (simp add: smooth_hz_values_nth smooth_value_first)
next
  assume *: "2 \<le> length xs"
  then have "length xs - 1 < length xs" by linarith
  then have "smooth_hz_values xs ! (length xs - 1)
      = py_round (smooth_value xs (length xs - 1)) 2"
    by (rule smooth_hz_values_nth)
  then show "smooth_hz_values xs ! (length xs - 1)
      = py_round ((xs ! (length xs - 2) + xs ! (length xs - 1)) / 2) 2"
    by (simp only: smooth_value_last [OF *])
next
  fix i assume "0 < i \<and> i + 1 < length xs"
  then show "smooth_hz_values xs ! i = py_round ((xs ! (i - 1) + xs ! i + xs ! (i + 1)) / 3) 2"
    by (simp add: smooth_hz_values_nth smooth_value_interior)
qed

theorem smooth_hz_values_neighbour_means_witness:
  "(2::nat) \<le> length [100, 200, 150, 101 :: real]
   \<and> smooth_hz_values [100, 200, 150, 101] = [150, 150, 15033 / 100, 1255 / 10]"
  using smooth_hz_values_neighbour_means [of "[100, 200, 150, 101]"]
  by (simp add: smooth_hz_values_map smooth_value_def py_slice_def py_last2_def np_mean_def py_round_def round_half_even_def Let_def upt_rec)




text \<open>
  Claim C9. An exception of the primitive, and a track without a frame, make
  \<open>detect_pitch\<close> return \<open>None\<close>. Whatever the primitive does, with a positive sample rate
  both pipelines return all their marks: those of \<^verbatim>\<open>main.py\<close> are at most
  \<open>MAX_VALID_HZ\<close> (and non-negative when the primitive's frequencies are), those of
  \<^verbatim>\<open>main2.py\<close> are at least \<open>MIN_VALID_HZ\<close>, and when the primitive fails on every
  segment every mark of both is the fallback \<open>MAX_VALID_HZ\<close>.
\<close>

theorem estimation_failure_contained:
  "(yin segment r = Inl e \<longrightarrow> detect_pitch yin segment r = None)
   \<and> (yin segment r = Inr f0 \<and> (\<forall>f\<in>set f0. f = None) \<longrightarrow> detect_pitch yin segment r = None)
   \<and> (0 < sr \<longrightarrow>
        (\<exists>ms. process_audio_file yin file_name y sr = Inr ms \<and> length ms = TIME_MARKS
           \<and> (\<forall>m\<in>set ms. hz m \<le> MAX_VALID_HZ)
           \<and> (yin_nonneg yin \<longrightarrow> (\<forall>m\<in>set ms. 0 \<le> hz m))
           \<and> ((\<forall>segment r. isl (yin segment r)) \<longrightarrow> (\<forall>m\<in>set ms. hz m = MAX_VALID_HZ))))
   \<and> (0 < sr \<longrightarrow>
        (\<exists>ms. process_audio_file2 yin file_name y sr = Inr ms \<and> length ms = TIME_MARKS2
           \<and> (\<forall>m\<in>set ms. MIN_VALID_HZ \<le> hz m)
           \<and> ((\<forall>segment r. isl (yin segment r)) \<longrightarrow> (\<forall>m\<in>set ms. hz m = MAX_VALID_HZ))))"
  using detect_pitch_raises [of yin segment r e] detect_pitch_no_frames [of yin segment r f0]
    process_audio_file_hz_range [of sr yin file_name y]
    process_audio_file2_hz_floor [of sr yin file_name y]
  by blast

theorem estimation_failure_contained_witness:
  "frames_yin [] 2 = Inl Exception \<and> detect_pitch frames_yin [] 2 = None
   \<and> frames_yin [- 1] 2 = Inr [None] \<and> detect_pitch frames_yin [- 1] 2 = None
   \<and> 0 < (2::nat)
   \<and> (\<exists>ms. process_audio_file failing_yin ''a.wav'' example_wave 2 = Inr ms
         \<and> map hz ms = replicate 10 350)
   \<and> (\<exists>ms. process_audio_file2 failing_yin ''a.wav'' example_wave 2 = Inr ms
         \<and> map hz ms = replicate 20 350)"
proof -
  have two: "0 < (2::nat)" by simp
  have raise: "frames_yin [] 2 = Inl Exception" by (simp add: frames_yin_def)
  have nan: "frames_yin [- 1] 2 = Inr [None]" by (simp add: frames_yin_def)
  have fail: "\<forall>segment r. isl (failing_yin segment r)" by (simp add: failing_yin_def)
  have const: "map hz ms = replicate n c" if "length ms = n" "\<forall>m\<in>set ms. hz m = c"
    for ms :: "mark_result list" and n c
    using that by (intro replicate_eqI) auto
  note t1 = estimation_failure_contained
    [of frames_yin "[]" 2 Exception "[None]" 2 "''a.wav''" example_wave]
  note t2 = estimation_failure_contained
    [of frames_yin "[- 1]" 2 Exception "[None]" 2 "''a.wav''" example_wave]
  note t3 = estimation_failure_contained
    [of failing_yin "[]" 2 Exception "[None]" 2 "''a.wav''" example_wave]
  have a: "detect_pitch frames_yin [] 2 = None"
    using t1 [THEN conjunct1] raise by (rule mp)
  have b: "detect_pitch frames_yin [- 1] 2 = None"
    using t2 [THEN conjunct2, THEN conjunct1] nan by simp
  from t3 [THEN conjunct2, THEN conjunct2, THEN conjunct1, rule_format, OF two]
  obtain ms1 where m1: "process_audio_file failing_yin ''a.wav'' example_wave 2 = Inr ms1"
      "length ms1 = TIME_MARKS" "\<forall>m\<in>set ms1. hz m = MAX_VALID_HZ"
    using fail by auto
  from t3 [THEN conjunct2, THEN conjunct2, THEN conjunct2, rule_format, OF two]
  obtain ms2 where m2: "process_audio_file2 failing_yin ''a.wav'' example_wave 2 = Inr ms2"
      "length ms2 = TIME_MARKS2" "\<forall>m\<in>set ms2. hz m = MAX_VALID_HZ"
    using fail by auto
  have "map hz ms1 = replicate 10 350"
    using const [OF m1(2) m1(3)] by (simp add: TIME_MARKS_def MAX_VALID_HZ_def)
  moreover have "map hz ms2 = replicate 20 350"
    using const [OF m2(2) m2(3)] by (simp add: TIME_MARKS2_def MAX_VALID_HZ_def)
  ultimately show ?thesis using two raise nan a b m1(1) m2(1) by simp
qed

text \<open>
  Claim C10. On the one-element input \<open>[x]\<close> the result is \<open>[round(x, 2)]\<close>, computed by
  the branch for the first position; on the empty input the result is the empty list.
\<close>

theorem smooth_edge_cases:
  "smooth_hz_values [x] = [py_round x 2]
   \<and> smooth_value [x] 0 = np_mean (py_slice [x] 0 2)
   \<and> smooth_hz_values [] = []"
  by (simp add: smooth_hz_values_map smooth_value_def py_slice_def np_mean_def)

end
